theory Spec2Isabelle
  imports Main "HOL-Library.FSet" "HOL-Library.Sublist"
begin

section \<open>Strings and numbers as the program sees them\<close>

text \<open>
  A Python \<open>str\<close> is a sequence of Unicode code points, and \<open>ord\<close> of a character
  can exceed 65535, so a string is modelled as the list of the \<open>ord\<close>s of its
  characters. \<open>lit\<close> turns a literal of the theory into such a list.
\<close>

type_synonym pystr = "int list"

definition lit :: "string \<Rightarrow> pystr" where
  "lit s = map of_char s"

text \<open>\<open>sep.join(parts)\<close>.\<close>

fun join :: "pystr \<Rightarrow> pystr list \<Rightarrow> pystr" where
  "join sep [] = []"
| "join sep [x] = x"
| "join sep (x # y # ys) = x @ sep @ join sep (y # ys)"

text \<open>\<open>str(n)\<close> and \<open>f'{n}'\<close> for an \<open>int\<close>: decimal digits, with a minus sign.\<close>

function str_digits :: "int \<Rightarrow> pystr" where
  "str_digits n = (if n < 10 then [48 + n] else str_digits (n div 10) @ [48 + n mod 10])"
  by pat_completeness auto
termination
  by (relation "measure nat") auto

declare str_digits.simps [simp del]

definition str_int :: "int \<Rightarrow> pystr" where
  "str_int i = (if i < 0 then 45 # str_digits (- i) else str_digits i)"

text \<open>\<open>f'{oc:04X}'\<close>: upper-case hexadecimal, padded with zeros to four digits.\<close>

definition hex_digit :: "int \<Rightarrow> int" where
  "hex_digit d = (if d < 10 then 48 + d else 55 + d)"

function hex_upper :: "int \<Rightarrow> pystr" where
  "hex_upper n = (if n < 16 then [hex_digit n] else hex_upper (n div 16) @ [hex_digit (n mod 16)])"
  by pat_completeness auto
termination
  by (relation "measure nat") auto

declare hex_upper.simps [simp del]

definition format_04X :: "int \<Rightarrow> pystr" where
  "format_04X n = (let h = hex_upper n in replicate (4 - length h) 48 @ h)"

section \<open>Identifier and literal formatter\<close>

text \<open>The character classes of \<open>IDENT_RE\<close> and \<open>UNSAFE_CHAR_RE\<close>.\<close>

definition is_alpha_us :: "int \<Rightarrow> bool" where
  "is_alpha_us c \<longleftrightarrow> (97 \<le> c \<and> c \<le> 122) \<or> (65 \<le> c \<and> c \<le> 90) \<or> c = 95"

definition is_digit :: "int \<Rightarrow> bool" where
  "is_digit c \<longleftrightarrow> 48 \<le> c \<and> c \<le> 57"

definition is_word_char :: "int \<Rightarrow> bool" where
  "is_word_char c \<longleftrightarrow> is_alpha_us c \<or> is_digit c"

text \<open>\<open>IDENT_RE.fullmatch(name)\<close> with \<open>IDENT_RE = [a-zA-Z_][a-zA-Z0-9_]*\<close>.\<close>

fun is_ident :: "pystr \<Rightarrow> bool" where
  "is_ident [] = False"
| "is_ident (c # cs) = (is_alpha_us c \<and> list_all is_word_char cs)"

text \<open>\<open>UNSAFE_CHAR_RE.sub('_', name)\<close>: every character outside the class becomes \<open>_\<close>.\<close>

definition sub_unsafe :: "pystr \<Rightarrow> pystr" where
  "sub_unsafe name = map (\<lambda>c. if is_word_char c then c else 95) name"

text \<open>
  \<open>MULTI_UNDERSCORE_RE.sub('_', name)\<close>: each maximal run of underscores (the regular
  expression is greedy) is replaced by one underscore.
\<close>

function sub_multi_underscore :: "pystr \<Rightarrow> pystr" where
  "sub_multi_underscore [] = []"
| "sub_multi_underscore (c # cs) =
     (if c = 95 then 95 # sub_multi_underscore (dropWhile (\<lambda>x. x = 95) cs)
      else c # sub_multi_underscore cs)"
  by pat_completeness auto
termination
  by (relation "measure length") (auto simp: less_Suc_eq_le length_dropWhile_le)

text \<open>
  \<open>make_ident(*components)\<close>. When \<open>name[0].isnumeric()\<close> is evaluated every
  character of \<open>name\<close> is in \<open>[a-zA-Z0-9_]\<close>, where \<open>isnumeric\<close> holds of the ten
  digits only.
\<close>

definition make_ident :: "pystr list \<Rightarrow> pystr" where
  "make_ident components =
     (let name = join [95] components;
          name = sub_unsafe name;
          name = sub_multi_underscore name;
          name = (if name \<noteq> [] \<and> last name = 95 then butlast name else name)
      in if name = [] \<or> is_digit (hd name) then 95 # name else name)"

text \<open>The inner function \<open>escape\<close> of \<open>make_string\<close>, on \<open>oc = ord(c)\<close>.\<close>

definition escape :: "int \<Rightarrow> pystr" where
  "escape oc =
     (if (32 \<le> oc \<and> oc \<le> 126) \<or> 65535 < oc then [oc]
      else if oc = 8 then [92, 98]
      else if oc = 12 then [92, 102]
      else if oc = 10 then [92, 110]
      else if oc = 13 then [92, 114]
      else if oc = 9 then [92, 116]
      else [92, 117] @ format_04X oc)"

definition make_string :: "pystr \<Rightarrow> pystr" where
  "make_string contents = [34] @ concat (map escape contents) @ [34]"

section \<open>Decoded JSON values\<close>

text \<open>
  What \<open>json.loads\<close> returns. A \<open>dict\<close> keeps its keys in insertion order, so a
  mapping is an association list. The program never computes with a \<open>float\<close>: it
  tests it for truth and prints it, so a float is kept as these two observations.
\<close>

record pyfloat =
  float_nonzero :: bool
  float_repr :: pystr

datatype json =
    JNull
  | JBool bool
  | JInt int
  | JFloat pyfloat
  | JStr pystr
  | JArr "json list"
  | JObj "(pystr \<times> json) list"

datatype pytype = TNoneType | TBool | TInt | TFloat | TStr | TList | TDict

fun type_of :: "json \<Rightarrow> pytype" where
  "type_of JNull = TNoneType"
| "type_of (JBool b) = TBool"
| "type_of (JInt i) = TInt"
| "type_of (JFloat f) = TFloat"
| "type_of (JStr s) = TStr"
| "type_of (JArr xs) = TList"
| "type_of (JObj kvs) = TDict"

text \<open>\<open>isinstance(value, typ)\<close>: \<open>bool\<close> is a subclass of \<open>int\<close>.\<close>

definition isinstance :: "json \<Rightarrow> pytype \<Rightarrow> bool" where
  "isinstance v t \<longleftrightarrow> type_of v = t \<or> (type_of v = TBool \<and> t = TInt)"

text \<open>The truth value of an object, as \<open>if self.obj:\<close> takes it.\<close>

fun truthy :: "json \<Rightarrow> bool" where
  "truthy JNull = False"
| "truthy (JBool b) = b"
| "truthy (JInt i) = (i \<noteq> 0)"
| "truthy (JFloat f) = float_nonzero f"
| "truthy (JStr s) = (s \<noteq> [])"
| "truthy (JArr xs) = (xs \<noteq> [])"
| "truthy (JObj kvs) = (kvs \<noteq> [])"

text \<open>The value of an \<open>int\<close> or \<open>bool\<close> as a number and as a dictionary key (\<open>True == 1\<close>).\<close>

fun int_of :: "json \<Rightarrow> int" where
  "int_of (JInt i) = i"
| "int_of (JBool b) = (if b then 1 else 0)"
| "int_of _ = 0"

text \<open>\<open>str(v)\<close> and \<open>f'{v}'\<close> of an \<open>int\<close> or \<open>bool\<close>.\<close>

fun str_intlike :: "json \<Rightarrow> pystr" where
  "str_intlike (JInt i) = str_int i"
| "str_intlike (JBool b) = (if b then lit ''True'' else lit ''False'')"
| "str_intlike _ = []"

section \<open>Errors\<close>

text \<open>
  Every exception the program raises itself, and the ones the interpreter raises for
  it: a call with too many arguments or an object that cannot be iterated
  (\<open>PyTypeError\<close>), a missing method (\<open>PyAttributeError\<close>), an undefined name
  (\<open>PyNameError\<close>).
\<close>

datatype error =
    MissingField pystr pystr
  | TypeMismatch pystr pystr pytype
  | UnexpectedFields pystr pystr
  | MalformedOneof pystr
  | UnknownVariant pystr pystr
  | IllegalAnchor pystr json
  | InvalidElementType pytype
  | AssertionError
  | PyTypeError
  | PyAttributeError pytype pystr
  | PyNameError pystr

section \<open>Structural unpacker\<close>

record MessageUnpacker =
  err_ctxt :: pystr
  obj :: json

definition MessageUnpacker_init :: "pystr \<Rightarrow> json \<Rightarrow> MessageUnpacker" where
  "MessageUnpacker_init ctxt ob = \<lparr>err_ctxt = ctxt, obj = ob\<rparr>"

text \<open>Removing a key from a \<open>dict\<close>.\<close>

definition del_key :: "pystr \<Rightarrow> (pystr \<times> json) list \<Rightarrow> (pystr \<times> json) list" where
  "del_key key kvs = filter (\<lambda>kv. fst kv \<noteq> key) kvs"

text \<open>
  \<open>self.obj.pop(key, default)\<close>, where \<open>None\<close> stands for the class \<open>Missing\<close>, the
  default of the parameter. On a \<open>dict\<close> it removes the key and returns its value, or
  returns the default; \<open>list.pop\<close> takes one argument at most; the other types have no
  method \<open>pop\<close>.
\<close>

fun obj_pop :: "json \<Rightarrow> pystr \<Rightarrow> json option \<Rightarrow> error + (json option \<times> json)" where
  "obj_pop (JObj kvs) key dflt =
     (case map_of kvs key of
        Some v \<Rightarrow> Inr (Some v, JObj (del_key key kvs))
      | None \<Rightarrow> Inr (dflt, JObj kvs))"
| "obj_pop (JArr xs) key dflt = Inl PyTypeError"
| "obj_pop ob key dflt = Inl (PyAttributeError (type_of ob) (lit ''pop''))"

definition pop ::
  "MessageUnpacker \<Rightarrow> pystr \<Rightarrow> pytype \<Rightarrow> json option \<Rightarrow> (error + json) \<times> MessageUnpacker" where
  "pop self key typ dflt =
     (case obj_pop (obj self) key dflt of
        Inl e \<Rightarrow> (Inl e, self)
      | Inr (val, ob) \<Rightarrow>
          (let self = self\<lparr>obj := ob\<rparr> in
           case val of
             None \<Rightarrow> (Inl (MissingField key (err_ctxt self)), self)
           | Some v \<Rightarrow>
               if \<not> isinstance v typ
               then (Inl (TypeMismatch key (err_ctxt self) (type_of v)), self)
               else (Inr v, self)))"

text \<open>
  \<open>', '.join(self.obj)\<close>: the keys of a \<open>dict\<close>, the elements of a \<open>list\<close> if all
  of them are strings, the characters of a \<open>str\<close>.
\<close>

fun the_str :: "json \<Rightarrow> pystr" where
  "the_str (JStr s) = s"
| "the_str _ = []"

fun join_obj :: "pystr \<Rightarrow> json \<Rightarrow> error + pystr" where
  "join_obj sep (JObj kvs) = Inr (join sep (map fst kvs))"
| "join_obj sep (JArr xs) =
     (if list_all (\<lambda>x. type_of x = TStr) xs then Inr (join sep (map the_str xs))
      else Inl PyTypeError)"
| "join_obj sep (JStr s) = Inr (join sep (map (\<lambda>c. [c]) s))"
| "join_obj sep _ = Inl PyTypeError"

text \<open>\<open>__exit__\<close>: the exception it raises, if any.\<close>

definition MessageUnpacker_exit :: "MessageUnpacker \<Rightarrow> error option" where
  "MessageUnpacker_exit self =
     (if truthy (obj self) then
        (case join_obj (lit '', '') (obj self) of
           Inl e \<Rightarrow> Some e
         | Inr keys \<Rightarrow> Some (UnexpectedFields (err_ctxt self) keys))
      else None)"

text \<open>
  \<open>with MessageUnpacker(ctxt, ob) as u: body\<close>. \<open>__exit__\<close> runs whether the body
  returned or raised, and an exception of \<open>__exit__\<close> replaces the one of the body.
\<close>

definition with_MessageUnpacker ::
  "pystr \<Rightarrow> json \<Rightarrow> (MessageUnpacker \<Rightarrow> (error + 'a) \<times> MessageUnpacker) \<Rightarrow> error + 'a" where
  "with_MessageUnpacker ctxt ob body =
     (case body (MessageUnpacker_init ctxt ob) of
        (r, u) \<Rightarrow> (case MessageUnpacker_exit u of Some e \<Rightarrow> Inl e | None \<Rightarrow> r))"

text \<open>Sequencing inside a \<open>with\<close> body: an exception ends the body.\<close>

definition and_then ::
  "('s \<Rightarrow> (error + 'a) \<times> 's) \<Rightarrow> ('a \<Rightarrow> 's \<Rightarrow> (error + 'b) \<times> 's) \<Rightarrow> 's \<Rightarrow> (error + 'b) \<times> 's" where
  "and_then m f s = (case m s of (Inl e, s') \<Rightarrow> (Inl e, s') | (Inr x, s') \<Rightarrow> f x s')"

definition return :: "'a \<Rightarrow> 's \<Rightarrow> (error + 'a) \<times> 's" where
  "return x s = (Inr x, s)"

section \<open>Oneof unpacker\<close>

record OneOfMessageUnpacker =
  oneof_err_ctxt :: pystr
  oneof_key :: pystr
  oneof_val :: json
  matched :: bool

text \<open>
  \<open>__init__\<close>: \<open>len(obj)\<close> is defined on \<open>dict\<close>, \<open>list\<close> and \<open>str\<close>, and
  \<open>obj.items()\<close> on \<open>dict\<close> only.
\<close>

fun OneOfMessageUnpacker_init :: "pystr \<Rightarrow> json \<Rightarrow> error + OneOfMessageUnpacker" where
  "OneOfMessageUnpacker_init ctxt (JObj kvs) =
     (case kvs of
        [(k, v)] \<Rightarrow> Inr \<lparr>oneof_err_ctxt = ctxt, oneof_key = k, oneof_val = v, matched = False\<rparr>
      | _ \<Rightarrow> Inl (MalformedOneof ctxt))"
| "OneOfMessageUnpacker_init ctxt (JArr xs) =
     (if length xs \<noteq> 1 then Inl (MalformedOneof ctxt)
      else Inl (PyAttributeError TList (lit ''items'')))"
| "OneOfMessageUnpacker_init ctxt (JStr s) =
     (if length s \<noteq> 1 then Inl (MalformedOneof ctxt)
      else Inl (PyAttributeError TStr (lit ''items'')))"
| "OneOfMessageUnpacker_init ctxt ob = Inl PyTypeError"

definition handle :: "OneOfMessageUnpacker \<Rightarrow> pystr \<Rightarrow> bool \<times> OneOfMessageUnpacker" where
  "handle self key =
     (let match = (oneof_key self = key)
      in (match, if match then self\<lparr>matched := True\<rparr> else self))"

definition OneOfMessageUnpacker_exit :: "OneOfMessageUnpacker \<Rightarrow> error option" where
  "OneOfMessageUnpacker_exit self =
     (if \<not> matched self then Some (UnknownVariant (oneof_err_ctxt self) (oneof_key self))
      else None)"

section \<open>Name allocator\<close>

text \<open>
  Decimal numerals are told apart by their digits: different counters give different
  suffixes, which is what makes the loop of \<open>uniquify\<close> end.
\<close>

lemma str_digits_digits: "0 \<le> n \<Longrightarrow> \<forall>c \<in> set (str_digits n). 48 \<le> c \<and> c \<le> 57"
proof (induction n rule: str_digits.induct)
  case (1 n)
  show ?case
  proof (cases "n < 10")
    case True
    with "1.prems" show ?thesis by (subst str_digits.simps) simp
  next
    case False
    with "1.prems" have "0 \<le> n div 10" by simp
    with False "1.IH" have "\<forall>c \<in> set (str_digits (n div 10)). 48 \<le> c \<and> c \<le> 57" by simp
    moreover have "0 \<le> n mod 10 \<and> n mod 10 < 10" by simp
    ultimately show ?thesis using False by (subst str_digits.simps) auto
  qed
qed

lemma str_digits_nonempty: "str_digits n \<noteq> []"
  by (subst str_digits.simps) simp

lemma str_digits_inj: "0 \<le> m \<Longrightarrow> 0 \<le> n \<Longrightarrow> str_digits m = str_digits n \<Longrightarrow> m = n"
proof (induction m arbitrary: n rule: str_digits.induct)
  case (1 m)
  show ?case
  proof (cases "m < 10")
    case True
    then have m: "str_digits m = [48 + m]" by (subst str_digits.simps) simp
    show ?thesis
    proof (cases "n < 10")
      case True
      then have "str_digits n = [48 + n]" by (subst str_digits.simps) simp
      with m "1.prems" show ?thesis by simp
    next
      case False
      then have "str_digits n = str_digits (n div 10) @ [48 + n mod 10]"
        by (subst str_digits.simps) simp
      with m "1.prems"(3) str_digits_nonempty [of "n div 10"] show ?thesis by simp
    qed
  next
    case False
    then have m: "str_digits m = str_digits (m div 10) @ [48 + m mod 10]"
      by (subst str_digits.simps) simp
    show ?thesis
    proof (cases "n < 10")
      case True
      then have "str_digits n = [48 + n]" by (subst str_digits.simps) simp
      with m "1.prems"(3) str_digits_nonempty [of "m div 10"] show ?thesis by simp
    next
      case n: False
      then have "str_digits n = str_digits (n div 10) @ [48 + n mod 10]"
        by (subst str_digits.simps) simp
      with m "1.prems"(3) have eq: "str_digits (m div 10) = str_digits (n div 10)"
        and md: "m mod 10 = n mod 10" by simp_all
      from "1.prems" have "0 \<le> m div 10" "0 \<le> n div 10" by simp_all
      with "1.IH" [OF False _ _ eq] have "m div 10 = n div 10" by simp
      with md show ?thesis by (metis mult_div_mod_eq)
    qed
  qed
qed

lemma str_int_inj: "str_int i = str_int j \<Longrightarrow> i = j"
proof -
  assume eq: "str_int i = str_int j"
  have pos: "hd (str_digits n) \<noteq> 45" if "0 \<le> n" for n
    using str_digits_digits [OF that] str_digits_nonempty [of n]
    by (cases "str_digits n") auto
  show ?thesis
  proof (cases "i < 0")
    case True
    show ?thesis
    proof (cases "j < 0")
      case j: True
      with True eq have "str_digits (- i) = str_digits (- j)" by (simp add: str_int_def)
      with True j have "- i = - j" by (intro str_digits_inj) simp_all
      then show ?thesis by simp
    next
      case False
      with True eq have "45 # str_digits (- i) = str_digits j" by (simp add: str_int_def)
      with pos [of j] False show ?thesis by (metis list.sel(1) not_less)
    qed
  next
    case False
    show ?thesis
    proof (cases "j < 0")
      case True
      with False eq have "str_digits i = 45 # str_digits (- j)" by (simp add: str_int_def)
      with pos [of i] False show ?thesis by (metis list.sel(1) not_less)
    next
      case j: False
      with False eq have "str_digits i = str_digits j" by (simp add: str_int_def)
      with False j show ?thesis by (intro str_digits_inj) simp_all
    qed
  qed
qed

text \<open>\<open>f'{name}_{i}'\<close>.\<close>

definition suffixed :: "pystr \<Rightarrow> int \<Rightarrow> pystr" where
  "suffixed name i = name @ [95] @ str_int i"

lemma suffixed_inj: "suffixed name i = suffixed name j \<Longrightarrow> i = j"
  by (simp add: suffixed_def str_int_inj)

lemma finite_pending: "finite {j. i \<le> j \<and> suffixed name j |\<in>| used}"
proof -
  have "inj (suffixed name)" by (rule injI) (rule suffixed_inj)
  then have "finite (suffixed name -` fset used)" by (intro finite_vimageI) simp_all
  moreover have "{j. i \<le> j \<and> suffixed name j |\<in>| used} \<subseteq> suffixed name -` fset used"
    by auto
  ultimately show ?thesis by (rule rev_finite_subset)
qed

text \<open>
  The loop of \<open>uniquify\<close>, from \<open>i\<close> on. \<open>used_names\<close> is a Python \<open>set\<close>, which is
  finite; that is why the loop ends.
\<close>

function uniquify_loop :: "pystr \<Rightarrow> int \<Rightarrow> pystr fset \<Rightarrow> pystr \<times> pystr fset" where
  "uniquify_loop name i used_names =
     (let uniquified = suffixed name i
      in if uniquified |\<notin>| used_names then (uniquified, finsert uniquified used_names)
         else uniquify_loop name (i + 1) used_names)"
  by pat_completeness auto
termination
proof (relation "measure (\<lambda>(name, i, used). card {j. i \<le> j \<and> suffixed name j |\<in>| used})")
  show "wf (measure (\<lambda>(name, i, used). card {j. i \<le> j \<and> suffixed name j |\<in>| used}))"
    by simp
next
  fix name :: pystr and i :: int and used_names :: "pystr fset" and uniquified
  assume u: "uniquified = suffixed name i" and "\<not> uniquified |\<notin>| used_names"
  then have mem: "suffixed name i |\<in>| used_names" by simp
  have "i \<in> {j. i \<le> j \<and> suffixed name j |\<in>| used_names}"
    and "i \<notin> {j. i + 1 \<le> j \<and> suffixed name j |\<in>| used_names}"
    and "{j. i + 1 \<le> j \<and> suffixed name j |\<in>| used_names}
        \<subseteq> {j. i \<le> j \<and> suffixed name j |\<in>| used_names}"
    using mem by auto
  then have "{j. i + 1 \<le> j \<and> suffixed name j |\<in>| used_names}
        \<subset> {j. i \<le> j \<and> suffixed name j |\<in>| used_names}"
    by blast
  then have "card {j. i + 1 \<le> j \<and> suffixed name j |\<in>| used_names}
        < card {j. i \<le> j \<and> suffixed name j |\<in>| used_names}"
    by (rule psubset_card_mono [OF finite_pending])
  then show "((name, i + 1, used_names), name, i, used_names)
        \<in> measure (\<lambda>(name, i, used). card {j. i \<le> j \<and> suffixed name j |\<in>| used})"
    by simp
qed

declare uniquify_loop.simps [simp del]

text \<open>\<open>uniquify(name)\<close>, with \<open>used_names\<close> passed in and returned.\<close>

definition uniquify :: "pystr \<Rightarrow> pystr fset \<Rightarrow> error + (pystr \<times> pystr fset)" where
  "uniquify name used_names =
     (if \<not> is_ident name then Inl AssertionError
      else if name |\<notin>| used_names then Inr (name, finsert name used_names)
      else Inr (uniquify_loop name 2 used_names))"

section \<open>JSON encoding of the standard library\<close>

text \<open>
  \<open>json.dumps\<close> with its defaults (\<open>ensure_ascii\<close>): a string goes between double
  quotes, with the backslash, the double quote and everything outside \<open>' '..'~'\<close>
  escaped; a character above 65535 becomes a surrogate pair.
\<close>

definition hex_digit_lower :: "int \<Rightarrow> int" where
  "hex_digit_lower d = (if d < 10 then 48 + d else 87 + d)"

function hex_lower :: "int \<Rightarrow> pystr" where
  "hex_lower n =
     (if n < 16 then [hex_digit_lower n]
      else hex_lower (n div 16) @ [hex_digit_lower (n mod 16)])"
  by pat_completeness auto
termination
  by (relation "measure nat") auto

declare hex_lower.simps [simp del]

definition format_04x :: "int \<Rightarrow> pystr" where
  "format_04x n = (let h = hex_lower n in replicate (4 - length h) 48 @ h)"

definition json_escape :: "int \<Rightarrow> pystr" where
  "json_escape c =
     (if c = 92 then [92, 92]
      else if c = 34 then [92, 34]
      else if 32 \<le> c \<and> c \<le> 126 then [c]
      else if c = 8 then [92, 98]
      else if c = 12 then [92, 102]
      else if c = 10 then [92, 110]
      else if c = 13 then [92, 114]
      else if c = 9 then [92, 116]
      else if c < 65536 then [92, 117] @ format_04x c
      else (let n = c - 65536;
                s1 = 55296 + (n div 1024) mod 1024;
                s2 = 56320 + n mod 1024
            in [92, 117] @ format_04x s1 @ [92, 117] @ format_04x s2))"

definition encode_basestring_ascii :: "pystr \<Rightarrow> pystr" where
  "encode_basestring_ascii s = [34] @ concat (map json_escape s) @ [34]"

text \<open>
  \<open>json.dumps(obj, indent=2)\<close> at nesting depth \<open>level\<close>; without containers it is
  \<open>json.dumps(obj)\<close>. An empty container has no line break.
\<close>

fun json_dumps :: "nat \<Rightarrow> json \<Rightarrow> pystr"
  and json_dumps_list :: "nat \<Rightarrow> json list \<Rightarrow> pystr list"
  and json_dumps_dict :: "nat \<Rightarrow> (pystr \<times> json) list \<Rightarrow> pystr list" where
  "json_dumps level JNull = lit ''null''"
| "json_dumps level (JBool b) = (if b then lit ''true'' else lit ''false'')"
| "json_dumps level (JInt i) = str_int i"
| "json_dumps level (JFloat f) = float_repr f"
| "json_dumps level (JStr s) = encode_basestring_ascii s"
| "json_dumps level (JArr xs) =
     (if xs = [] then lit ''[]''
      else lit ''['' @ [10] @ replicate (2 * (level + 1)) 32
           @ join (lit '','' @ [10] @ replicate (2 * (level + 1)) 32) (json_dumps_list (level + 1) xs)
           @ [10] @ replicate (2 * level) 32 @ lit '']'')"
| "json_dumps level (JObj kvs) =
     (if kvs = [] then lit ''{}''
      else lit ''{'' @ [10] @ replicate (2 * (level + 1)) 32
           @ join (lit '','' @ [10] @ replicate (2 * (level + 1)) 32) (json_dumps_dict (level + 1) kvs)
           @ [10] @ replicate (2 * level) 32 @ lit ''}'')"
| "json_dumps_list level [] = []"
| "json_dumps_list level (x # xs) = json_dumps level x # json_dumps_list level xs"
| "json_dumps_dict level [] = []"
| "json_dumps_dict level ((k, v) # kvs) =
     (encode_basestring_ascii k @ lit '': '' @ json_dumps level v) # json_dumps_dict level kvs"

section \<open>State of one run\<close>

text \<open>
  The variables of \<open>disas\<close> that its inner functions read and write. The keys of the
  lookup tables are \<open>int\<close>s; \<open>True\<close> and \<open>False\<close> are the keys 1 and 0.
\<close>

record run =
  used_names :: "pystr fset"
  output_list :: "pystr list"
  uri_lookup :: "int \<rightharpoonup> pystr"
  typ_lookup :: "int \<rightharpoonup> pystr"
  tv_lookup :: "int \<rightharpoonup> pystr"
  fn_lookup :: "int \<rightharpoonup> pystr"

text \<open>\<open>lookup_table.get(val, str(val))\<close> for an \<open>int\<close> or \<open>bool\<close>.\<close>

definition lookup_get :: "(int \<rightharpoonup> pystr) \<Rightarrow> json \<Rightarrow> pystr" where
  "lookup_get lookup_table val =
     (case lookup_table (int_of val) of Some symbol \<Rightarrow> symbol | None \<Rightarrow> str_intlike val)"

section \<open>Tree serializer\<close>

text \<open>The entry of the table \<open>behavior\<close> for a key, \<open>('recurse',)\<close> if it has none.\<close>

datatype behavior = Extension_ref "int \<rightharpoonup> pystr" | Subtree pystr | Recurse

text \<open>\<open>next(iter(val)) if isinstance(val, dict) and val else 'unknown'\<close>.\<close>

fun subtree_name :: "json \<Rightarrow> pystr" where
  "subtree_name (JObj ((k, v) # kvs)) = k"
| "subtree_name val = lit ''unknown''"

definition behavior_of :: "run \<Rightarrow> pystr \<Rightarrow> json \<Rightarrow> behavior" where
  "behavior_of r key val =
     (if key = lit ''functionReference'' then Extension_ref (fn_lookup r)
      else if key = lit ''comparisonFunctionReference'' then Extension_ref (fn_lookup r)
      else if key = lit ''userDefinedTypeReference'' then Extension_ref (typ_lookup r)
      else if key = lit ''typeVariationReference'' then Extension_ref (tv_lookup r)
      else if key = lit ''input'' then Subtree (subtree_name val)
      else Recurse)"

text \<open>\<open>output.append(f'raw {ref} = {text};\n\n')\<close>.\<close>

definition raw_statement :: "pystr \<Rightarrow> pystr \<Rightarrow> pystr" where
  "raw_statement ref text = lit ''raw '' @ ref @ lit '' = '' @ text @ lit '';'' @ [10, 10]"

text \<open>
  \<open>dfs_helper(node, indent)\<close> inside \<open>emit_raw_json(ref, data)\<close>. \<open>dfs_items\<close> and
  \<open>dfs_elems\<close> are its two loops, from the entries and elements still to visit, with
  the loop variables \<open>first\<close> and \<open>retval\<close>.
\<close>

fun dfs_helper :: "pystr \<Rightarrow> json \<Rightarrow> pystr \<Rightarrow> run \<Rightarrow> error + (pystr \<times> run)"
  and dfs_items ::
    "pystr \<Rightarrow> (pystr \<times> json) list \<Rightarrow> pystr \<Rightarrow> bool \<Rightarrow> pystr list \<Rightarrow> run \<Rightarrow> error + (pystr list \<times> run)"
  and dfs_elems ::
    "pystr \<Rightarrow> json list \<Rightarrow> pystr \<Rightarrow> bool \<Rightarrow> pystr list \<Rightarrow> run \<Rightarrow> error + (pystr list \<times> run)" where
  "dfs_helper ref (JObj kvs) indent r =
     (case dfs_items ref kvs indent True [lit ''{''] r of
        Inl e \<Rightarrow> Inl e
      | Inr (retval, r) \<Rightarrow> Inr (concat (retval @ [[10] @ indent @ lit ''}'']), r))"
| "dfs_helper ref (JArr xs) indent r =
     (case dfs_elems ref xs indent True [lit ''[''] r of
        Inl e \<Rightarrow> Inl e
      | Inr (retval, r) \<Rightarrow> Inr (concat (retval @ [[10] @ indent @ lit '']'']), r))"
| "dfs_helper ref node indent r = Inr (json_dumps 0 node, r)"
| "dfs_items ref [] indent first retval r = Inr (retval, r)"
| "dfs_items ref ((key, val) # rest) indent first retval r =
     (let retval = (if first then retval else retval @ [lit '','']);
          key_str = make_string key;
          retval = retval @ [[10] @ indent @ lit ''  '' @ key_str @ lit '': ''];
          bhv = behavior_of r key val
      in case bhv of
           Extension_ref lookup_table \<Rightarrow>
             if isinstance val TInt
             then dfs_items ref rest indent False (retval @ [lookup_get lookup_table val]) r
             else (case dfs_helper ref val (indent @ lit ''  '') r of
                     Inl e \<Rightarrow> Inl e
                   | Inr (text, r) \<Rightarrow> dfs_items ref rest indent False (retval @ [text]) r)
         | Subtree name \<Rightarrow>
             if isinstance val TDict
             then (case dfs_helper ref val [] r of
                     Inl e \<Rightarrow> Inl e
                   | Inr (subtree, r) \<Rightarrow>
                       (case uniquify (make_ident [ref, name]) (used_names r) of
                          Inl e \<Rightarrow> Inl e
                        | Inr (subref, used) \<Rightarrow>
                            dfs_items ref rest indent False (retval @ [subref])
                              (r\<lparr>used_names := used,
                                 output_list := output_list r @ [raw_statement subref subtree]\<rparr>)))
             else (case dfs_helper ref val (indent @ lit ''  '') r of
                     Inl e \<Rightarrow> Inl e
                   | Inr (text, r) \<Rightarrow> dfs_items ref rest indent False (retval @ [text]) r)
         | Recurse \<Rightarrow>
             (case dfs_helper ref val (indent @ lit ''  '') r of
                Inl e \<Rightarrow> Inl e
              | Inr (text, r) \<Rightarrow> dfs_items ref rest indent False (retval @ [text]) r))"
| "dfs_elems ref [] indent first retval r = Inr (retval, r)"
| "dfs_elems ref (val # rest) indent first retval r =
     (let retval = (if first then retval else retval @ [lit '','']);
          retval = retval @ [[10] @ indent @ lit ''  '']
      in case dfs_helper ref val (indent @ lit ''  '') r of
           Inl e \<Rightarrow> Inl e
         | Inr (text, r) \<Rightarrow> dfs_elems ref rest indent False (retval @ [text]) r)"

text \<open>\<open>emit_raw_json(ref, data)\<close>.\<close>

definition emit_raw_json :: "pystr \<Rightarrow> json \<Rightarrow> run \<Rightarrow> error + run" where
  "emit_raw_json ref data r =
     (case dfs_helper ref data [] r of
        Inl e \<Rightarrow> Inl e
      | Inr (root, r) \<Rightarrow> Inr (r\<lparr>output_list := output_list r @ [raw_statement ref root]\<rparr>))"

section \<open>The disassembler\<close>

text \<open>The two toplevel \<open>with\<close> blocks of \<open>disas\<close>.\<close>

definition unpack_plan :: "json \<Rightarrow> error + (json \<times> json \<times> json \<times> json \<times> json)" where
  "unpack_plan plan =
     with_MessageUnpacker (lit ''plan'') plan
       (and_then (\<lambda>u. pop u (lit ''extensionUris'') TList (Some (JArr []))) (\<lambda>extension_uris.
        and_then (\<lambda>u. pop u (lit ''extensions'') TList (Some (JArr []))) (\<lambda>extensions.
        and_then (\<lambda>u. pop u (lit ''relations'') TList (Some (JArr []))) (\<lambda>relations.
        and_then (\<lambda>u. pop u (lit ''advancedExtensions'') TDict (Some (JObj []))) (\<lambda>advanced_extensions.
        and_then (\<lambda>u. pop u (lit ''expectedTypeUrls'') TList (Some (JArr []))) (\<lambda>expected_type_urls.
        return (extension_uris, extensions, relations, advanced_extensions, expected_type_urls)))))))"

definition unpack_advanced_extensions :: "json \<Rightarrow> error + (json \<times> json)" where
  "unpack_advanced_extensions advanced_extensions =
     with_MessageUnpacker (lit ''toplevel advanced extension object'') advanced_extensions
       (and_then (\<lambda>u. pop u (lit ''enhancement'') TDict (Some (JObj []))) (\<lambda>toplevel_enhancement.
        and_then (\<lambda>u. pop u (lit ''optimization'') TDict (Some (JObj []))) (\<lambda>toplevel_optimization.
        return (toplevel_enhancement, toplevel_optimization))))"

text \<open>The elements of a value that \<open>pop\<close> has checked to be a \<open>list\<close>.\<close>

fun the_list :: "json \<Rightarrow> json list" where
  "the_list (JArr xs) = xs"
| "the_list _ = []"

text \<open>The state at the start: \<open>used_names = set()\<close>, \<open>output = []\<close>, four empty tables.\<close>

definition new_run :: run where
  "new_run = \<lparr>used_names = {||}, output_list = [], uri_lookup = Map.empty,
     typ_lookup = Map.empty, tv_lookup = Map.empty, fn_lookup = Map.empty\<rparr>"

text \<open>\<open>output.append(text)\<close>.\<close>

definition append_output :: "pystr \<Rightarrow> run \<Rightarrow> run" where
  "append_output text r = r\<lparr>output_list := output_list r @ [text]\<rparr>"

text \<open>\<open>uri.rsplit('/', maxsplit=1)[-1].split('.', maxsplit=1)[0]\<close>.\<close>

definition last_segment_stem :: "pystr \<Rightarrow> pystr" where
  "last_segment_stem uri =
     takeWhile (\<lambda>c. c \<noteq> 46) (rev (takeWhile (\<lambda>c. c \<noteq> 47) (rev uri)))"

text \<open>
  The body of \<open>for extension_uri in extension_uris\<close>. The unpacker is built over
  \<open>extension_uris\<close>, the list being iterated, not over its element \<open>extension_uri\<close>.
\<close>

definition uri_body :: "json \<Rightarrow> json \<Rightarrow> run \<Rightarrow> error + run" where
  "uri_body extension_uris extension_uri r =
     (case with_MessageUnpacker (lit ''extensionUriAnchor'') extension_uris
             (and_then (\<lambda>u. pop u (lit ''extensionUriAnchor'') TInt (Some (JInt 0))) (\<lambda>anchor.
              and_then (\<lambda>u. pop u (lit ''uri'') TStr None) (\<lambda>uri.
              return (anchor, uri)))) of
        Inl e \<Rightarrow> Inl e
      | Inr (anchor, uri) \<Rightarrow>
          if \<not> isinstance anchor TInt \<or> int_of anchor < 0
          then Inl (IllegalAnchor (lit ''URI'') anchor)
          else (case uniquify (make_ident [lit ''uri'', last_segment_stem (the_str uri)])
                       (used_names r) of
                  Inl e \<Rightarrow> Inl e
                | Inr (ref, used) \<Rightarrow>
                    Inr ((append_output
                            (lit ''using '' @ ref @ lit '' = '' @ make_string (the_str uri)
                             @ lit '' = '' @ str_intlike anchor @ lit '';'' @ [10])
                            (r\<lparr>used_names := used\<rparr>))
                         \<lparr>uri_lookup := (uri_lookup r)(int_of anchor \<mapsto> ref)\<rparr>)))"

fun uri_loop :: "json \<Rightarrow> json list \<Rightarrow> run \<Rightarrow> error + run" where
  "uri_loop extension_uris [] r = Inr r"
| "uri_loop extension_uris (extension_uri # rest) r =
     (case uri_body extension_uris extension_uri r of
        Inl e \<Rightarrow> Inl e
      | Inr r \<Rightarrow> uri_loop extension_uris rest r)"

text \<open>
  \<open>with OneOfMessageUnpacker(ctxt, ob) as u: body\<close>. An exception of \<open>__init__\<close>
  is raised before the block is entered.
\<close>

definition with_OneOfMessageUnpacker ::
  "pystr \<Rightarrow> json \<Rightarrow> (OneOfMessageUnpacker \<Rightarrow> (error + 'a) \<times> OneOfMessageUnpacker) \<Rightarrow> error + 'a" where
  "with_OneOfMessageUnpacker ctxt ob body =
     (case OneOfMessageUnpacker_init ctxt ob of
        Inl e \<Rightarrow> Inl e
      | Inr u \<Rightarrow>
          (case body u of
             (res, u) \<Rightarrow> (case OneOfMessageUnpacker_exit u of Some e \<Rightarrow> Inl e | None \<Rightarrow> res)))"

text \<open>The table an extension declaration writes to: the variable \<open>lookup\<close>.\<close>

datatype lookup = Fn_lookup | Typ_lookup | Tv_lookup

fun lookup_store :: "lookup \<Rightarrow> int \<Rightarrow> pystr \<Rightarrow> run \<Rightarrow> run" where
  "lookup_store Fn_lookup anchor ref r = r\<lparr>fn_lookup := (fn_lookup r)(anchor \<mapsto> ref)\<rparr>"
| "lookup_store Typ_lookup anchor ref r = r\<lparr>typ_lookup := (typ_lookup r)(anchor \<mapsto> ref)\<rparr>"
| "lookup_store Tv_lookup anchor ref r = r\<lparr>tv_lookup := (tv_lookup r)(anchor \<mapsto> ref)\<rparr>"

text \<open>One of the three inner \<open>with\<close> blocks of an extension, which differ in four names.\<close>

definition unpack_extension :: "pystr \<Rightarrow> json \<Rightarrow> pystr \<Rightarrow> error + (json \<times> json \<times> json)" where
  "unpack_extension ctxt val anchor_field =
     with_MessageUnpacker ctxt val
       (and_then (\<lambda>v. pop v (lit ''extensionUriReference'') TInt (Some (JInt 0))) (\<lambda>uri_ref.
        and_then (\<lambda>v. pop v anchor_field TInt (Some (JInt 0))) (\<lambda>anchor.
        and_then (\<lambda>v. pop v (lit ''name'') TStr None) (\<lambda>name.
        return (uri_ref, anchor, name)))))"

text \<open>
  The \<open>with\<close> block of an extension: the variables it binds. When no variant is
  handled the block binds nothing and \<open>__exit__\<close> raises.
\<close>

definition extension_variant ::
  "OneOfMessageUnpacker \<Rightarrow>
   (error + (json \<times> json \<times> json \<times> pystr \<times> pystr \<times> lookup) option) \<times> OneOfMessageUnpacker" where
  "extension_variant u =
     (case handle u (lit ''extensionFunction'') of
        (True, u) \<Rightarrow>
          (case unpack_extension (lit ''function extension'') (oneof_val u) (lit ''functionAnchor'') of
             Inl e \<Rightarrow> (Inl e, u)
           | Inr (uri_ref, anchor, name) \<Rightarrow>
               (Inr (Some (uri_ref, anchor, name, lit ''function'', lit ''fn'', Fn_lookup)), u))
      | (False, u) \<Rightarrow>
     (case handle u (lit ''extensionType'') of
        (True, u) \<Rightarrow>
          (case unpack_extension (lit ''type extension'') (oneof_val u) (lit ''typeAnchor'') of
             Inl e \<Rightarrow> (Inl e, u)
           | Inr (uri_ref, anchor, name) \<Rightarrow>
               (Inr (Some (uri_ref, anchor, name, lit ''type'', lit ''typ'', Typ_lookup)), u))
      | (False, u) \<Rightarrow>
     (case handle u (lit ''extensionTypeVariation'') of
        (True, u) \<Rightarrow>
          (case unpack_extension (lit ''type extension'') (oneof_val u) (lit ''typeVariationAnchor'') of
             Inl e \<Rightarrow> (Inl e, u)
           | Inr (uri_ref, anchor, name) \<Rightarrow>
               (Inr (Some (uri_ref, anchor, name, lit ''type_variation'', lit ''tv'', Tv_lookup)), u))
      | (False, u) \<Rightarrow> (Inr None, u))))"

text \<open>The table of operator names, \<open>.get(name, name)\<close>.\<close>

definition ref_name_of :: "pystr \<Rightarrow> pystr" where
  "ref_name_of name =
     (if name = lit ''+'' then lit ''add''
      else if name = lit ''-'' then lit ''sub''
      else if name = lit ''*'' then lit ''mult''
      else if name = lit ''/'' then lit ''div''
      else name)"

text \<open>
  The body of \<open>for extension in extensions\<close>. Past the \<open>with\<close> block a variant has
  been handled, since \<open>__exit__\<close> raises otherwise; the branch for \<open>None\<close> is not
  reached.
\<close>

definition extension_body :: "json \<Rightarrow> run \<Rightarrow> error + run" where
  "extension_body extension r =
     (case with_OneOfMessageUnpacker (lit ''extension'') extension extension_variant of
        Inl e \<Rightarrow> Inl e
      | Inr None \<Rightarrow> Inl (PyNameError (lit ''anchor''))
      | Inr (Some (uri_ref, anchor, name, decl, prefix_str, lookup)) \<Rightarrow>
          if \<not> isinstance anchor TInt \<or> int_of anchor < 0
          then Inl (IllegalAnchor decl anchor)
          else (case uniquify (make_ident [prefix_str, ref_name_of (the_str name)]) (used_names r) of
                  Inl e \<Rightarrow> Inl e
                | Inr (ref, used) \<Rightarrow>
                    (let uri_ref = (if int_of uri_ref = 0 then []
                                    else lookup_get (uri_lookup r) uri_ref @ lit ''::'');
                         name = (if \<not> is_ident (the_str name) then make_string (the_str name)
                                 else the_str name)
                     in Inr (lookup_store lookup (int_of anchor) ref
                          (append_output
                             (decl @ lit '' '' @ ref @ lit '' = '' @ uri_ref @ name
                              @ lit '' = '' @ str_intlike anchor @ lit '';'' @ [10])
                             (r\<lparr>used_names := used\<rparr>))))))"

fun extension_loop :: "json list \<Rightarrow> run \<Rightarrow> error + run" where
  "extension_loop [] r = Inr r"
| "extension_loop (extension # rest) r =
     (case extension_body extension r of
        Inl e \<Rightarrow> Inl e
      | Inr r \<Rightarrow> extension_loop rest r)"

text \<open>\<open>Emit extension declarations\<close>.\<close>

definition emit_extensions :: "json \<Rightarrow> json \<Rightarrow> run \<Rightarrow> error + run" where
  "emit_extensions extension_uris extensions r =
     (if truthy extension_uris \<or> truthy extensions then
        (case uri_loop extension_uris (the_list extension_uris)
                (append_output ([10] @ lit ''// Type/function extensions'' @ [10]) r) of
           Inl e \<Rightarrow> Inl e
         | Inr r \<Rightarrow>
             extension_loop (the_list extensions)
               (if truthy extension_uris then append_output [10] r else r))
      else Inr r)"

text \<open>
  \<open>make_string\<close> applied to an element of \<open>expectedTypeUrls\<close>, which nothing has
  checked to be a string: \<open>map(escape, contents)\<close> iterates whatever it is given, and
  \<open>ord\<close> wants a string of one character.
\<close>

fun make_string_any :: "json \<Rightarrow> error + pystr" where
  "make_string_any (JStr s) = Inr (make_string s)"
| "make_string_any (JArr xs) =
     (if list_all (\<lambda>x. type_of x = TStr \<and> length (the_str x) = 1) xs
      then Inr (make_string (concat (map the_str xs))) else Inl PyTypeError)"
| "make_string_any (JObj kvs) =
     (if list_all (\<lambda>kv. length (fst kv) = 1) kvs
      then Inr (make_string (concat (map fst kvs))) else Inl PyTypeError)"
| "make_string_any _ = Inl PyTypeError"

fun proto_extension_loop :: "json list \<Rightarrow> run \<Rightarrow> error + run" where
  "proto_extension_loop [] r = Inr r"
| "proto_extension_loop (expected_type_url # rest) r =
     (case make_string_any expected_type_url of
        Inl e \<Rightarrow> Inl e
      | Inr url \<Rightarrow>
          proto_extension_loop rest
            (append_output (lit ''proto_extension '' @ url @ lit '';'' @ [10]) r))"

text \<open>\<open>Emit protobuf-level extension declarations\<close>.\<close>

definition emit_proto_extensions :: "json \<Rightarrow> json \<Rightarrow> json \<Rightarrow> run \<Rightarrow> error + run" where
  "emit_proto_extensions toplevel_enhancement toplevel_optimization expected_type_urls r =
     (if truthy toplevel_enhancement \<or> truthy toplevel_optimization \<or> truthy expected_type_urls
      then
        (case proto_extension_loop (the_list expected_type_urls)
                (append_output ([10] @ lit ''// Protobuf extensions'' @ [10]) r) of
           Inl e \<Rightarrow> Inl e
         | Inr r \<Rightarrow>
             (let r = (if truthy toplevel_enhancement
                       then append_output (lit ''enhancement '' @ json_dumps 0 toplevel_enhancement
                                           @ lit '';'' @ [10]) r
                       else r);
                  r = (if truthy toplevel_optimization
                       then append_output (lit ''optimization '' @ json_dumps 0 toplevel_optimization
                                           @ lit '';'' @ [10]) r
                       else r)
              in Inr r))
      else Inr r)"

text \<open>
  The inner \<open>with\<close> block of the variant \<open>root\<close>: \<open>input\<close> is popped as an \<open>int\<close>
  with default 0, \<open>names\<close> as a \<open>list\<close> with default 0.
\<close>

fun check_names :: "json list \<Rightarrow> error option" where
  "check_names [] = None"
| "check_names (name # rest) =
     (if \<not> isinstance name TStr then Some (InvalidElementType (type_of name))
      else check_names rest)"

definition unpack_root :: "json \<Rightarrow> error + (json \<times> pystr)" where
  "unpack_root val =
     with_MessageUnpacker (lit ''relation root'') val
       (and_then (\<lambda>v. pop v (lit ''input'') TInt (Some (JInt 0))) (\<lambda>rel.
        and_then (\<lambda>v. pop v (lit ''names'') TList (Some (JInt 0))) (\<lambda>names.
        (\<lambda>v. case check_names (the_list names) of
                Some e \<Rightarrow> (Inl e, v)
              | None \<Rightarrow>
                  (let names = join (lit '', '') (map (\<lambda>n. make_string (the_str n)) (the_list names));
                       names = lit ''('' @ names @ lit '')''
                   in (Inr (rel, names), v))))))"

text \<open>
  The \<open>with\<close> block of a relation, for the relation at \<open>index\<close>. The variant \<open>root\<close>
  ends in the call of \<open>emit_rels\<close>, a name that is defined nowhere. When no variant is
  handled, the last three statements run on the variables of an earlier iteration or
  stop at the unbound \<open>rel\<close>; they end in either case, and \<open>__exit__\<close> then raises
  and replaces whatever the block raised.
\<close>

definition relation_variant ::
  "int \<Rightarrow> run \<Rightarrow> OneOfMessageUnpacker \<Rightarrow> (error + run) \<times> OneOfMessageUnpacker" where
  "relation_variant index r u =
     (case handle u (lit ''root'') of
        (True, u) \<Rightarrow>
          (case unpack_root (oneof_val u) of
             Inl e \<Rightarrow> (Inl e, u)
           | Inr (rel, names) \<Rightarrow> (Inl (PyNameError (lit ''emit_rels'')), u))
      | (False, u) \<Rightarrow>
     (case handle u (lit ''rel'') of
        (True, u) \<Rightarrow>
          (let rel = oneof_val u; names = [] in
           case uniquify (make_ident [lit ''rel'', str_int index]) (used_names r) of
             Inl e \<Rightarrow> (Inl e, u)
           | Inr (ref, used) \<Rightarrow>
               (case emit_raw_json ref rel (r\<lparr>used_names := used\<rparr>) of
                  Inl e \<Rightarrow> (Inl e, u)
                | Inr r \<Rightarrow>
                    (Inr (append_output (lit ''execute '' @ ref @ names @ lit '';'' @ [10]) r), u)))
      | (False, u) \<Rightarrow> (Inl (PyNameError (lit ''rel'')), u)))"

definition relation_body :: "int \<Rightarrow> json \<Rightarrow> run \<Rightarrow> error + run" where
  "relation_body index relation r =
     with_OneOfMessageUnpacker (lit ''relation root'') relation
       (relation_variant index
          (append_output ([10] @ lit ''// Relation '' @ str_int index @ [10]) r))"

fun relation_loop :: "int \<Rightarrow> json list \<Rightarrow> run \<Rightarrow> error + run" where
  "relation_loop index [] r = Inr r"
| "relation_loop index (relation # rest) r =
     (case relation_body index relation r of
        Inl e \<Rightarrow> Inl e
      | Inr r \<Rightarrow> relation_loop (index + 1) rest r)"

text \<open>\<open>disas\<close>, from the decoded plan to the text.\<close>

definition disas :: "json \<Rightarrow> error + pystr" where
  "disas plan =
     (case unpack_plan plan of
        Inl e \<Rightarrow> Inl e
      | Inr (extension_uris, extensions, relations, advanced_extensions, expected_type_urls) \<Rightarrow>
     (case unpack_advanced_extensions advanced_extensions of
        Inl e \<Rightarrow> Inl e
      | Inr (toplevel_enhancement, toplevel_optimization) \<Rightarrow>
     (case emit_extensions extension_uris extensions new_run of
        Inl e \<Rightarrow> Inl e
      | Inr r \<Rightarrow>
     (case emit_proto_extensions toplevel_enhancement toplevel_optimization expected_type_urls r of
        Inl e \<Rightarrow> Inl e
      | Inr r \<Rightarrow>
     (case relation_loop 0 (the_list relations) r of
        Inl e \<Rightarrow> Inl e
      | Inr r \<Rightarrow> Inr (concat (output_list r)))))))"

section \<open>Properties of the formatter\<close>

text \<open>No two adjacent underscores: what \<open>MULTI_UNDERSCORE_RE.sub\<close> establishes.\<close>

fun no_double_us :: "pystr \<Rightarrow> bool" where
  "no_double_us [] = True"
| "no_double_us [x] = True"
| "no_double_us (x # y # zs) = (\<not> (x = 95 \<and> y = 95) \<and> no_double_us (y # zs))"

lemma sub_unsafe_word: "list_all is_word_char (sub_unsafe xs)"
  by (induction xs) (auto simp: sub_unsafe_def is_word_char_def is_alpha_us_def)

lemma sub_unsafe_id: "list_all is_word_char xs \<Longrightarrow> sub_unsafe xs = xs"
  by (induction xs) (auto simp: sub_unsafe_def)

lemma sub_multi_underscore_subset: "set (sub_multi_underscore xs) \<subseteq> set xs"
proof (induction xs rule: sub_multi_underscore.induct)
  case 1
  then show ?case by simp
next
  case (2 c cs)
  have "set (dropWhile (\<lambda>x. x = 95) cs) \<subseteq> set cs"
    by (meson set_dropWhileD subsetI)
  with 2 show ?case by auto
qed

lemma sub_multi_underscore_word:
  "list_all is_word_char xs \<Longrightarrow> list_all is_word_char (sub_multi_underscore xs)"
  using sub_multi_underscore_subset [of xs] by (auto simp: list_all_iff)

lemma sub_multi_underscore_hd:
  "xs \<noteq> [] \<Longrightarrow> sub_multi_underscore xs \<noteq> [] \<and> hd (sub_multi_underscore xs) = hd xs"
  by (cases xs) auto

lemma no_double_us_Cons:
  "no_double_us (x # ys) \<longleftrightarrow> (ys = [] \<or> \<not> (x = 95 \<and> hd ys = 95)) \<and> no_double_us ys"
  by (cases ys) auto

lemma sub_multi_underscore_no_double: "no_double_us (sub_multi_underscore xs)"
proof (induction xs rule: sub_multi_underscore.induct)
  case 1
  then show ?case by simp
next
  case (2 c cs)
  show ?case
  proof (cases "c = 95")
    case True
    let ?d = "dropWhile (\<lambda>x. x = 95) cs"
    have "sub_multi_underscore ?d = [] \<or> hd (sub_multi_underscore ?d) \<noteq> 95"
    proof (cases "?d = []")
      case True
      show ?thesis unfolding True by simp
    next
      case False
      then have "hd ?d \<noteq> 95" by (rule hd_dropWhile)
      with False show ?thesis using sub_multi_underscore_hd [of ?d] by simp
    qed
    with True 2 show ?thesis by (simp add: no_double_us_Cons)
  next
    case False
    with 2 show ?thesis by (simp add: no_double_us_Cons)
  qed
qed

lemma sub_multi_underscore_id: "no_double_us xs \<Longrightarrow> sub_multi_underscore xs = xs"
proof (induction xs rule: no_double_us.induct)
  case 1
  then show ?case by simp
next
  case (2 x)
  then show ?case by simp
next
  case (3 x y zs)
  then show ?case by auto
qed

lemma no_double_us_butlast:
  "no_double_us xs \<Longrightarrow> no_double_us (butlast xs)"
  by (induction xs rule: no_double_us.induct) auto

lemma no_double_us_last:
  "no_double_us xs \<Longrightarrow> xs \<noteq> [] \<Longrightarrow> last xs = 95 \<Longrightarrow> butlast xs = [] \<or> last (butlast xs) \<noteq> 95"
  by (induction xs rule: no_double_us.induct) (auto split: if_splits)

text \<open>The shape of \<open>name\<close> in \<open>make_ident\<close> before the last test.\<close>

definition canonical :: "pystr \<Rightarrow> bool" where
  "canonical n \<longleftrightarrow> list_all is_word_char n \<and> no_double_us n \<and> (n = [] \<or> last n \<noteq> 95)"

lemma make_ident_canonical_id:
  assumes "canonical n"
  shows "make_ident [if n = [] \<or> is_digit (hd n) then 95 # n else n]
         = (if n = [] \<or> is_digit (hd n) then 95 # n else n)"
proof (cases "n = []")
  case True
  then show ?thesis
    by (simp add: make_ident_def sub_unsafe_def is_word_char_def is_alpha_us_def is_digit_def)
next
  case False
  let ?r = "if n = [] \<or> is_digit (hd n) then 95 # n else n"
  from assms have w: "list_all is_word_char ?r" and d: "no_double_us ?r" and l: "last ?r \<noteq> 95"
    and h: "\<not> is_digit (hd ?r)" and ne: "?r \<noteq> []"
    using False by (auto simp: canonical_def is_word_char_def is_alpha_us_def is_digit_def no_double_us_Cons)
  have "make_ident [?r] = ?r"
    unfolding make_ident_def Let_def join.simps
    using sub_unsafe_id [OF w] sub_multi_underscore_id [OF d] l h ne by simp
  then show ?thesis .
qed

lemma make_ident_shape:
  "\<exists>n. canonical n \<and> make_ident components = (if n = [] \<or> is_digit (hd n) then 95 # n else n)"
proof -
  let ?n2 = "sub_multi_underscore (sub_unsafe (join [95] components))"
  let ?n3 = "if ?n2 \<noteq> [] \<and> last ?n2 = 95 then butlast ?n2 else ?n2"
  have w2: "list_all is_word_char ?n2"
    by (simp add: sub_unsafe_word sub_multi_underscore_word)
  have d2: "no_double_us ?n2" by (rule sub_multi_underscore_no_double)
  have "list_all is_word_char ?n3"
    using w2 by (auto simp: list_all_iff dest: in_set_butlastD)
  moreover have "no_double_us ?n3" using d2 by (simp add: no_double_us_butlast)
  moreover have "?n3 = [] \<or> last ?n3 \<noteq> 95"
    using no_double_us_last [OF d2] by auto
  ultimately have "canonical ?n3" by (simp add: canonical_def)
  moreover have "make_ident components = (if ?n3 = [] \<or> is_digit (hd ?n3) then 95 # ?n3 else ?n3)"
    by (simp add: make_ident_def Let_def)
  ultimately show ?thesis by blast
qed

lemma is_ident_canonical:
  assumes "canonical n"
  shows "is_ident (if n = [] \<or> is_digit (hd n) then 95 # n else n)"
proof (cases n)
  case Nil
  then show ?thesis by (simp add: is_alpha_us_def)
next
  case (Cons c cs)
  with assms show ?thesis
    by (auto simp: canonical_def is_word_char_def is_alpha_us_def)
qed

text \<open>
  C7. For every list of components (the empty string, strings of symbols only and
  strings that start with a digit included) \<open>make_ident\<close> returns a non-empty
  string that \<open>IDENT_RE\<close> matches in full, and \<open>make_ident\<close> applied to its own
  result returns that result.
\<close>

theorem make_ident_valid_idempotent:
  "make_ident components \<noteq> [] \<and> is_ident (make_ident components)
   \<and> make_ident [make_ident components] = make_ident components"
proof -
  obtain n where c: "canonical n"
    and eq: "make_ident components = (if n = [] \<or> is_digit (hd n) then 95 # n else n)"
    using make_ident_shape by blast
  have "is_ident (make_ident components)"
    unfolding eq using c by (rule is_ident_canonical)
  moreover have "make_ident [make_ident components] = make_ident components"
    unfolding eq using c by (rule make_ident_canonical_id)
  moreover have "make_ident components \<noteq> []"
    using \<open>is_ident (make_ident components)\<close> by auto
  ultimately show ?thesis by simp
qed


text \<open>
  C3. \<open>make_string\<close> leaves the backslash and the double quote as they are, so the
  two characters backslash, \<open>n\<close> and the single character newline get the same
  literal: un-escaping that literal cannot return both strings.
\<close>

theorem make_string_collision:
  "make_string [92, 110] = [34, 92, 110, 34] \<and> make_string [10] = [34, 92, 110, 34]"
  by code_simp

theorem make_string_not_injective: "\<not> inj make_string"
proof
  assume "inj make_string"
  moreover have "make_string [92, 110] = make_string [10]" by code_simp
  ultimately have "[92, 110] = [10 :: int]" by (rule injD)
  then show False by simp
qed

section \<open>Properties of the structural unpacker\<close>

text \<open>
  C5, as the claim states it, fails: the default is checked against the expected type
  like a value of the mapping, so \<open>pop('names', list, 0)\<close> on a mapping without the
  key raises the type mismatch.
\<close>

theorem pop_default_wrong_kind:
  "pop \<lparr>err_ctxt = lit ''relation root'', obj = JObj []\<rparr> (lit ''names'') TList (Some (JInt 0))
   = (Inl (TypeMismatch (lit ''names'') (lit ''relation root'') TInt),
      \<lparr>err_ctxt = lit ''relation root'', obj = JObj []\<rparr>)"
  by (simp add: pop_def isinstance_def)

text \<open>
  C5, amended. When the key is absent from the mapping and the default supplied is an
  instance of the expected type, \<open>pop\<close> returns the default and leaves the mapping
  as it was.
\<close>

theorem pop_absent_default:
  assumes "map_of kvs key = None" and "isinstance d typ"
  shows "pop \<lparr>err_ctxt = c, obj = JObj kvs\<rparr> key typ (Some d)
         = (Inr d, \<lparr>err_ctxt = c, obj = JObj kvs\<rparr>)"
  using assms by (simp add: pop_def)

theorem pop_absent_default_witness:
  "pop \<lparr>err_ctxt = lit ''plan'', obj = JObj [(lit ''relations'', JArr [])]\<rparr>
       (lit ''extensions'') TList (Some (JArr []))
   = (Inr (JArr []), \<lparr>err_ctxt = lit ''plan'', obj = JObj [(lit ''relations'', JArr [])]\<rparr>)"
  by (rule pop_absent_default) (simp_all add: isinstance_def lit_def)

text \<open>
  C9. When the key is present and its value is not an instance of the expected type,
  \<open>pop\<close> raises the type mismatch and the mapping it leaves behind no longer has
  the key.
\<close>

theorem pop_wrong_kind_removes_key:
  assumes "map_of kvs key = Some v" and "\<not> isinstance v typ"
  shows "pop \<lparr>err_ctxt = c, obj = JObj kvs\<rparr> key typ dflt
         = (Inl (TypeMismatch key c (type_of v)), \<lparr>err_ctxt = c, obj = JObj (del_key key kvs)\<rparr>)
         \<and> map_of (del_key key kvs) key = None
         \<and> del_key key kvs \<noteq> kvs"
proof -
  have "key \<notin> fst ` set (del_key key kvs)" by (auto simp: del_key_def)
  then have "map_of (del_key key kvs) key = None" by (simp add: map_of_eq_None_iff)
  moreover from this assms(1) have "del_key key kvs \<noteq> kvs" by auto
  ultimately show ?thesis using assms by (simp add: pop_def)
qed

theorem pop_wrong_kind_removes_key_witness:
  "pop \<lparr>err_ctxt = lit ''relation root'',
        obj = JObj [(lit ''input'', JObj []), (lit ''names'', JArr [])]\<rparr>
       (lit ''input'') TInt (Some (JInt 0))
   = (Inl (TypeMismatch (lit ''input'') (lit ''relation root'') TDict),
      \<lparr>err_ctxt = lit ''relation root'', obj = JObj [(lit ''names'', JArr [])]\<rparr>)"
  using pop_wrong_kind_removes_key [of "[(lit ''input'', JObj []), (lit ''names'', JArr [])]"
      "lit ''input''" "JObj []" TInt "lit ''relation root''" "Some (JInt 0)"]
  by (simp add: isinstance_def lit_def del_key_def)

text \<open>
  C10. When the value at the key is \<open>true\<close> or \<open>false\<close> and an \<open>int\<close> is
  expected, \<open>pop\<close> returns the boolean; the boolean also passes the later tests
  \<open>isinstance(anchor, int)\<close>, \<open>anchor < 0\<close> and \<open>isinstance(val, int)\<close>.
\<close>

theorem pop_bool_as_int:
  assumes "map_of kvs key = Some (JBool b)"
  shows "pop \<lparr>err_ctxt = c, obj = JObj kvs\<rparr> key TInt dflt
         = (Inr (JBool b), \<lparr>err_ctxt = c, obj = JObj (del_key key kvs)\<rparr>)
         \<and> isinstance (JBool b) TInt \<and> 0 \<le> int_of (JBool b)"
  using assms by (simp add: pop_def isinstance_def)

theorem pop_bool_as_int_witness:
  "pop \<lparr>err_ctxt = lit ''function extension'', obj = JObj [(lit ''functionAnchor'', JBool True)]\<rparr>
       (lit ''functionAnchor'') TInt (Some (JInt 0))
   = (Inr (JBool True), \<lparr>err_ctxt = lit ''function extension'', obj = JObj []\<rparr>)"
  using pop_bool_as_int [of "[(lit ''functionAnchor'', JBool True)]" "lit ''functionAnchor''" True
      "lit ''function extension''" "Some (JInt 0)"]
  by (simp add: lit_def del_key_def)

section \<open>Properties of the name allocator\<close>

text \<open>The loop returns the first suffix from \<open>i\<close> on that is not in use, and marks it used.\<close>

lemma uniquify_loop_first_free:
  "\<exists>k \<ge> i. uniquify_loop name i used = (suffixed name k, finsert (suffixed name k) used)
      \<and> suffixed name k |\<notin>| used
      \<and> (\<forall>j. i \<le> j \<and> j < k \<longrightarrow> suffixed name j |\<in>| used)"
proof (induction name i used rule: uniquify_loop.induct)
  case (1 name i used)
  show ?case
  proof (cases "suffixed name i |\<notin>| used")
    case True
    then have "uniquify_loop name i used = (suffixed name i, finsert (suffixed name i) used)"
      by (simp add: uniquify_loop.simps [of name i used] Let_def)
    with True show ?thesis by (intro exI [of _ i]) auto
  next
    case False
    with "1.IH" obtain k where k: "i + 1 \<le> k"
      "uniquify_loop name (i + 1) used = (suffixed name k, finsert (suffixed name k) used)"
      "suffixed name k |\<notin>| used"
      "\<forall>j. i + 1 \<le> j \<and> j < k \<longrightarrow> suffixed name j |\<in>| used"
      by auto
    from False have "uniquify_loop name i used = uniquify_loop name (i + 1) used"
      by (simp add: uniquify_loop.simps [of name i used] Let_def)
    moreover have "\<forall>j. i \<le> j \<and> j < k \<longrightarrow> suffixed name j |\<in>| used"
    proof (intro allI impI)
      fix j assume "i \<le> j \<and> j < k"
      then have "j = i \<or> (i + 1 \<le> j \<and> j < k)" by auto
      with False k(4) show "suffixed name j |\<in>| used" by auto
    qed
    ultimately show ?thesis using k by (intro exI [of _ k]) simp
  qed
qed

lemma uniquify_result:
  assumes "is_ident name"
  shows "\<exists>r. uniquify name used = Inr (r, finsert r used) \<and> r |\<notin>| used
     \<and> (if name |\<notin>| used then r = name
         else \<exists>k \<ge> 2. r = suffixed name k \<and> (\<forall>j. 2 \<le> j \<and> j < k \<longrightarrow> suffixed name j |\<in>| used))"
proof (cases "name |\<notin>| used")
  case True
  with assms show ?thesis by (simp add: uniquify_def)
next
  case False
  obtain k where "2 \<le> k"
    "uniquify_loop name 2 used = (suffixed name k, finsert (suffixed name k) used)"
    "suffixed name k |\<notin>| used"
    "\<forall>j. 2 \<le> j \<and> j < k \<longrightarrow> suffixed name j |\<in>| used"
    using uniquify_loop_first_free [of 2 name used] by blast
  with False assms show ?thesis by (auto simp: uniquify_def)
qed

text \<open>A sequence of calls in one run: each call sees the names the earlier ones marked.\<close>

fun uniquify_calls :: "pystr list \<Rightarrow> pystr fset \<Rightarrow> error + (pystr list \<times> pystr fset)" where
  "uniquify_calls [] used = Inr ([], used)"
| "uniquify_calls (c # cs) used =
     (case uniquify c used of
        Inl e \<Rightarrow> Inl e
      | Inr (r, used) \<Rightarrow>
          (case uniquify_calls cs used of
             Inl e \<Rightarrow> Inl e
           | Inr (rs, used) \<Rightarrow> Inr (r # rs, used)))"

text \<open>What the \<open>k\<close>-th call returns, given the names in use before it.\<close>

definition first_unused :: "pystr \<Rightarrow> pystr set \<Rightarrow> pystr \<Rightarrow> bool" where
  "first_unused c used r \<longleftrightarrow>
     r \<notin> used \<and>
     (if c \<notin> used then r = c
      else \<exists>k \<ge> 2. r = c @ [95] @ str_int k \<and> (\<forall>j. 2 \<le> j \<and> j < k \<longrightarrow> c @ [95] @ str_int j \<in> used))"

lemma uniquify_calls_general:
  assumes "list_all is_ident cs"
  shows "\<exists>rs. uniquify_calls cs used = Inr (rs, used |\<union>| fset_of_list rs)
     \<and> length rs = length cs
     \<and> (\<forall>k < length cs. first_unused (cs ! k) (fset used \<union> set (take k rs)) (rs ! k))"
  using assms
proof (induction cs arbitrary: used)
  case Nil
  then show ?case by simp
next
  case (Cons c cs)
  from Cons.prems have c: "is_ident c" and cs: "list_all is_ident cs" by simp_all
  obtain r where r: "uniquify c used = Inr (r, finsert r used)" "r |\<notin>| used"
    and r': "if c |\<notin>| used then r = c
         else \<exists>k \<ge> 2. r = suffixed c k \<and> (\<forall>j. 2 \<le> j \<and> j < k \<longrightarrow> suffixed c j |\<in>| used)"
    using uniquify_result [OF c, of used] by blast
  obtain rs where rs: "uniquify_calls cs (finsert r used) = Inr (rs, finsert r used |\<union>| fset_of_list rs)"
    "length rs = length cs"
    "\<forall>k < length cs. first_unused (cs ! k) (fset (finsert r used) \<union> set (take k rs)) (rs ! k)"
    using Cons.IH [OF cs, of "finsert r used"] by blast
  have first: "first_unused c (fset used) r"
    using r(2) r' by (auto simp: first_unused_def suffixed_def split: if_splits)
  have "\<forall>k < length (c # cs). first_unused ((c # cs) ! k) (fset used \<union> set (take k (r # rs))) ((r # rs) ! k)"
  proof (intro allI impI)
    fix k assume k: "k < length (c # cs)"
    show "first_unused ((c # cs) ! k) (fset used \<union> set (take k (r # rs))) ((r # rs) ! k)"
    proof (cases k)
      case 0
      with first show ?thesis by simp
    next
      case (Suc k')
      with k rs(3) have "first_unused (cs ! k') (fset (finsert r used) \<union> set (take k' rs)) (rs ! k')"
        by simp
      moreover have "fset (finsert r used) \<union> set (take k' rs) = fset used \<union> set (take k (r # rs))"
        using Suc by auto
      ultimately show ?thesis using Suc by simp
    qed
  qed
  moreover have "uniquify_calls (c # cs) used = Inr (r # rs, used |\<union>| fset_of_list (r # rs))"
    using r(1) rs(1) by simp
  ultimately show ?case using rs(2) by (intro exI [of _ "r # rs"]) simp
qed

lemma first_unused_distinct:
  assumes "\<forall>k < length rs. rs ! k \<notin> A \<union> set (take k rs)"
  shows "distinct rs"
  unfolding distinct_conv_nth
proof (intro allI impI)
  fix i j assume "i < length rs" "j < length rs" "i \<noteq> j"
  then consider "i < j" | "j < i" by linarith
  then show "rs ! i \<noteq> rs ! j"
  proof cases
    case 1
    with \<open>i < length rs\<close> have "rs ! i \<in> set (take j rs)"
      by (metis in_set_conv_nth length_take min_less_iff_conj nth_take)
    with assms \<open>j < length rs\<close> show ?thesis by auto
  next
    case 2
    with \<open>j < length rs\<close> have "rs ! j \<in> set (take i rs)"
      by (metis in_set_conv_nth length_take min_less_iff_conj nth_take)
    with assms \<open>i < length rs\<close> show ?thesis by auto
  qed
qed

text \<open>
  C8. In a run that starts with no name in use, for any sequence of candidates that
  are valid identifiers (repeats allowed), every call of \<open>uniquify\<close> succeeds and
  returns a name that no earlier call returned; the name is the candidate if no earlier
  call returned it, and otherwise the candidate with the first suffix \<open>_2\<close>,
  \<open>_3\<close>, ... that no earlier call returned.
\<close>

theorem uniquify_never_repeats:
  assumes "list_all is_ident cs"
  shows "\<exists>rs used'. uniquify_calls cs {||} = Inr (rs, used')
     \<and> length rs = length cs \<and> distinct rs
     \<and> (\<forall>k < length cs. first_unused (cs ! k) (set (take k rs)) (rs ! k))"
proof -
  obtain rs where rs: "uniquify_calls cs {||} = Inr (rs, {||} |\<union>| fset_of_list rs)"
    "length rs = length cs"
    "\<forall>k < length cs. first_unused (cs ! k) (fset {||} \<union> set (take k rs)) (rs ! k)"
    using uniquify_calls_general [OF assms, of "{||}"] by blast
  from rs(3) have fu: "\<forall>k < length cs. first_unused (cs ! k) (set (take k rs)) (rs ! k)" by simp
  with rs(2) have "\<forall>k < length rs. rs ! k \<notin> {} \<union> set (take k rs)"
    by (simp add: first_unused_def)
  then have "distinct rs" by (rule first_unused_distinct)
  with rs(1,2) fu show ?thesis by blast
qed

theorem uniquify_never_repeats_witness:
  "uniquify_calls [lit ''fn_add'', lit ''fn_add'', lit ''fn_add_2'', lit ''fn_add''] {||}
   = Inr ([lit ''fn_add'', lit ''fn_add_2'', lit ''fn_add_2_2'', lit ''fn_add_3''],
          {|lit ''fn_add'', lit ''fn_add_2'', lit ''fn_add_2_2'', lit ''fn_add_3''|})
   \<and> distinct [lit ''fn_add'', lit ''fn_add_2'', lit ''fn_add_2_2'', lit ''fn_add_3'']"
proof -
  have ev: "uniquify_calls [lit ''fn_add'', lit ''fn_add'', lit ''fn_add_2'', lit ''fn_add''] {||}
   = Inr ([lit ''fn_add'', lit ''fn_add_2'', lit ''fn_add_2_2'', lit ''fn_add_3''],
          {|lit ''fn_add'', lit ''fn_add_2'', lit ''fn_add_2_2'', lit ''fn_add_3''|})"
    by code_simp
  have "list_all is_ident [lit ''fn_add'', lit ''fn_add'', lit ''fn_add_2'', lit ''fn_add'']"
    by code_simp
  from uniquify_never_repeats [OF this] ev show ?thesis by auto
qed

section \<open>Properties of the tree serializer\<close>

lemma make_ident_is_ident: "is_ident (make_ident components)"
proof -
  obtain n where "canonical n"
    and "make_ident components = (if n = [] \<or> is_digit (hd n) then 95 # n else n)"
    using make_ident_shape by blast
  then show ?thesis using is_ident_canonical by simp
qed

lemma is_ident_suffixed:
  assumes "is_ident name" and "0 \<le> k"
  shows "is_ident (suffixed name k)"
proof -
  from assms(2) have "\<forall>c \<in> set (str_digits k). is_word_char c"
    using str_digits_digits [of k] by (auto simp: is_word_char_def is_digit_def)
  then have "list_all is_word_char (str_int k)"
    using assms(2) by (simp add: str_int_def list_all_iff)
  with assms(1) show ?thesis
    by (cases name) (simp_all add: suffixed_def is_word_char_def is_alpha_us_def)
qed

lemma uniquify_is_ident:
  assumes "uniquify name used = Inr (r, used')"
  shows "is_ident r"
proof -
  from assms have n: "is_ident name" by (auto simp: uniquify_def split: if_splits)
  from uniquify_result [OF n, of used] assms
  have "if name |\<notin>| used then r = name else \<exists>k \<ge> 2. r = suffixed name k \<and> (\<forall>j. 2 \<le> j \<and> j < k \<longrightarrow> suffixed name j |\<in>| used)"
    by auto
  then show ?thesis using n is_ident_suffixed by (auto split: if_splits)
qed

text \<open>The part of the loop body of \<open>dfs_items\<close> that renders the value of one entry.\<close>

definition render_entry :: "pystr \<Rightarrow> pystr \<Rightarrow> json \<Rightarrow> pystr \<Rightarrow> run \<Rightarrow> error + (pystr \<times> run)" where
  "render_entry ref key val indent r =
     (case behavior_of r key val of
        Extension_ref lookup_table \<Rightarrow>
          if isinstance val TInt then Inr (lookup_get lookup_table val, r)
          else dfs_helper ref val (indent @ lit ''  '') r
      | Subtree name \<Rightarrow>
          if isinstance val TDict
          then (case dfs_helper ref val [] r of
                  Inl e \<Rightarrow> Inl e
                | Inr (subtree, r) \<Rightarrow>
                    (case uniquify (make_ident [ref, name]) (used_names r) of
                       Inl e \<Rightarrow> Inl e
                     | Inr (subref, used) \<Rightarrow>
                         Inr (subref, r\<lparr>used_names := used,
                                output_list := output_list r @ [raw_statement subref subtree]\<rparr>)))
          else dfs_helper ref val (indent @ lit ''  '') r
      | Recurse \<Rightarrow> dfs_helper ref val (indent @ lit ''  '') r)"

lemma dfs_items_Cons:
  "dfs_items ref ((key, val) # rest) indent first retval r =
     (case render_entry ref key val indent r of
        Inl e \<Rightarrow> Inl e
      | Inr (piece, r') \<Rightarrow>
          dfs_items ref rest indent False
            ((if first then retval else retval @ [lit '','']) 
              @ [[10] @ indent @ lit ''  '' @ make_string key @ lit '': ''] @ [piece]) r')"
  by (simp add: render_entry_def Let_def split: behavior.splits sum.splits prod.splits)

text \<open>
  A statement or a rendered tree refers to a hoisted binding where it has the bare
  symbol as the value of a key \<open>input\<close>.
\<close>

definition refers_to :: "pystr \<Rightarrow> pystr \<Rightarrow> bool" where
  "refers_to text subref \<longleftrightarrow> sublist (make_string (lit ''input'') @ lit '': '' @ subref) text"

text \<open>
  Every statement of \<open>stmts\<close> is a \<open>raw\<close> binding whose symbol is referred to by a
  later statement of \<open>stmts\<close> or by \<open>text\<close>.
\<close>

definition hoisted_before_use :: "pystr list \<Rightarrow> pystr \<Rightarrow> bool" where
  "hoisted_before_use stmts text \<longleftrightarrow>
     (\<forall>i < length stmts. \<exists>subref subtree.
        is_ident subref \<and> stmts ! i = raw_statement subref subtree \<and>
        (refers_to text subref \<or> (\<exists>j. i < j \<and> j < length stmts \<and> refers_to (stmts ! j) subref)))"

lemma sublist_trans': "sublist xs ys \<Longrightarrow> sublist ys zs \<Longrightarrow> sublist xs zs"
  by (metis sublist_order.order_trans)

lemma refers_to_mono: "refers_to t s \<Longrightarrow> sublist t t' \<Longrightarrow> refers_to t' s"
  unfolding refers_to_def by (rule sublist_trans')

lemma hoisted_nil: "hoisted_before_use [] t"
  by (simp add: hoisted_before_use_def)

lemma hoisted_append:
  assumes "hoisted_before_use s1 t1" and "hoisted_before_use s2 t2"
    and "sublist t1 t" and "sublist t2 t"
  shows "hoisted_before_use (s1 @ s2) t"
  unfolding hoisted_before_use_def
proof (intro allI impI)
  fix i assume i: "i < length (s1 @ s2)"
  show "\<exists>subref subtree. is_ident subref \<and> (s1 @ s2) ! i = raw_statement subref subtree \<and>
        (refers_to t subref \<or> (\<exists>j. i < j \<and> j < length (s1 @ s2) \<and> refers_to ((s1 @ s2) ! j) subref))"
  proof (cases "i < length s1")
    case True
    with assms(1) obtain subref subtree where a: "is_ident subref" "s1 ! i = raw_statement subref subtree"
      and b: "refers_to t1 subref \<or> (\<exists>j. i < j \<and> j < length s1 \<and> refers_to (s1 ! j) subref)"
      unfolding hoisted_before_use_def by blast
    from b have "refers_to t subref \<or> (\<exists>j. i < j \<and> j < length (s1 @ s2) \<and> refers_to ((s1 @ s2) ! j) subref)"
    proof
      assume "refers_to t1 subref"
      with assms(3) show ?thesis by (blast intro: refers_to_mono)
    next
      assume "\<exists>j. i < j \<and> j < length s1 \<and> refers_to (s1 ! j) subref"
      then obtain j where "i < j" "j < length s1" "refers_to (s1 ! j) subref" by blast
      then have "i < j \<and> j < length (s1 @ s2) \<and> refers_to ((s1 @ s2) ! j) subref"
        by (simp add: nth_append)
      then show ?thesis by blast
    qed
    moreover have "(s1 @ s2) ! i = raw_statement subref subtree"
      using True a by (simp add: nth_append)
    ultimately show ?thesis using a(1) by blast
  next
    case False
    with i have i2: "i - length s1 < length s2" by simp
    with assms(2) obtain subref subtree where a: "is_ident subref"
      "s2 ! (i - length s1) = raw_statement subref subtree"
      and b: "refers_to t2 subref \<or> (\<exists>j. i - length s1 < j \<and> j < length s2 \<and> refers_to (s2 ! j) subref)"
      unfolding hoisted_before_use_def by blast
    from b have "refers_to t subref \<or> (\<exists>j. i < j \<and> j < length (s1 @ s2) \<and> refers_to ((s1 @ s2) ! j) subref)"
    proof
      assume "refers_to t2 subref"
      with assms(4) show ?thesis by (blast intro: refers_to_mono)
    next
      assume "\<exists>j. i - length s1 < j \<and> j < length s2 \<and> refers_to (s2 ! j) subref"
      then obtain j where j: "i - length s1 < j" "j < length s2" "refers_to (s2 ! j) subref" by blast
      with False have "i < length s1 + j \<and> length s1 + j < length (s1 @ s2)
          \<and> refers_to ((s1 @ s2) ! (length s1 + j)) subref"
        by (simp add: nth_append)
      then show ?thesis by blast
    qed
    moreover have "(s1 @ s2) ! i = raw_statement subref subtree"
      using False a by (simp add: nth_append)
    ultimately show ?thesis using a(1) by blast
  qed
qed

lemma hoisted_mono:
  assumes "hoisted_before_use s t1" and "sublist t1 t"
  shows "hoisted_before_use s t"
  using hoisted_append [OF assms(1) hoisted_nil [of "[]"] assms(2)] by simp

lemma hoisted_close:
  assumes "hoisted_before_use s subtree" and "is_ident subref" and "refers_to t subref"
  shows "hoisted_before_use (s @ [raw_statement subref subtree]) t"
  unfolding hoisted_before_use_def
proof (intro allI impI)
  fix i assume i: "i < length (s @ [raw_statement subref subtree])"
  let ?s = "s @ [raw_statement subref subtree]"
  show "\<exists>sr st. is_ident sr \<and> ?s ! i = raw_statement sr st \<and>
        (refers_to t sr \<or> (\<exists>j. i < j \<and> j < length ?s \<and> refers_to (?s ! j) sr))"
  proof (cases "i < length s")
    case True
    with assms(1) obtain sr st where a: "is_ident sr" "s ! i = raw_statement sr st"
      and b: "refers_to subtree sr \<or> (\<exists>j. i < j \<and> j < length s \<and> refers_to (s ! j) sr)"
      unfolding hoisted_before_use_def by blast
    from b have "\<exists>j. i < j \<and> j < length ?s \<and> refers_to (?s ! j) sr"
    proof
      assume "refers_to subtree sr"
      moreover have "sublist subtree (raw_statement subref subtree)"
        unfolding raw_statement_def
        by (metis append.assoc sublist_appendI)
      ultimately have "refers_to (raw_statement subref subtree) sr" by (rule refers_to_mono)
      with True have "i < length s \<and> length s < length ?s \<and> refers_to (?s ! length s) sr" by simp
      then show ?thesis by blast
    next
      assume "\<exists>j. i < j \<and> j < length s \<and> refers_to (s ! j) sr"
      then obtain j where "i < j" "j < length s" "refers_to (s ! j) sr" by blast
      then have "i < j \<and> j < length ?s \<and> refers_to (?s ! j) sr" by (simp add: nth_append)
      then show ?thesis by blast
    qed
    moreover have "?s ! i = raw_statement sr st"
      using True a by (simp add: nth_append)
    ultimately show ?thesis using a(1) by blast
  next
    case False
    with i have "i = length s" by simp
    then have "?s ! i = raw_statement subref subtree" by simp
    with assms(2,3) show ?thesis by blast
  qed
qed


text \<open>
  What \<open>dfs_helper\<close> does on a node, for every indentation and state: it returns,
  it only appends to the output, and what it appends is referred to later.
\<close>

definition serializes_ok :: "pystr \<Rightarrow> json \<Rightarrow> bool" where
  "serializes_ok ref node \<longleftrightarrow>
     (\<forall>indent r. \<exists>text r' stmts.
        dfs_helper ref node indent r = Inr (text, r') \<and>
        output_list r' = output_list r @ stmts \<and>
        hoisted_before_use stmts text)"

lemma behavior_of_Subtree: "behavior_of r key val = Subtree name \<Longrightarrow> key = lit ''input''"
  by (auto simp: behavior_of_def split: if_splits)

lemma render_entry_ok:
  assumes ok: "serializes_ok ref val"
  shows "\<exists>piece r' stmts.
     render_entry ref key val indent r = Inr (piece, r') \<and>
     output_list r' = output_list r @ stmts \<and>
     hoisted_before_use stmts (make_string key @ lit '': '' @ piece)"
proof -
  have recurse: "\<exists>piece r' stmts.
     dfs_helper ref val (indent @ lit ''  '') r = Inr (piece, r') \<and>
     output_list r' = output_list r @ stmts \<and>
     hoisted_before_use stmts (make_string key @ lit '': '' @ piece)"
  proof -
    from ok obtain rendered r' stmts where
      "dfs_helper ref val (indent @ lit ''  '') r = Inr (rendered, r')"
      "output_list r' = output_list r @ stmts" "hoisted_before_use stmts rendered"
      unfolding serializes_ok_def by blast
    moreover from this(3) have "hoisted_before_use stmts (make_string key @ lit '': '' @ rendered)"
      by (rule hoisted_mono) (metis append.assoc sublist_append_leftI)
    ultimately show ?thesis by blast
  qed
  show ?thesis
  proof (cases "behavior_of r key val")
    case (Extension_ref lookup_table)
    show ?thesis
    proof (cases "isinstance val TInt")
      case True
      with Extension_ref have "render_entry ref key val indent r = Inr (lookup_get lookup_table val, r)"
        by (simp add: render_entry_def)
      then show ?thesis using hoisted_nil by fastforce
    next
      case False
      with Extension_ref have "render_entry ref key val indent r = dfs_helper ref val (indent @ lit ''  '') r"
        by (simp add: render_entry_def)
      with recurse show ?thesis by simp
    qed
  next
    case (Subtree name)
    then have key: "key = lit ''input''" by (rule behavior_of_Subtree)
    show ?thesis
    proof (cases "isinstance val TDict")
      case True
      from ok obtain subtree r1 stmts where
        d: "dfs_helper ref val [] r = Inr (subtree, r1)"
        and o: "output_list r1 = output_list r @ stmts" and h: "hoisted_before_use stmts subtree"
        unfolding serializes_ok_def by blast
      obtain subref where u: "uniquify (make_ident [ref, name]) (used_names r1)
          = Inr (subref, finsert subref (used_names r1))"
        using uniquify_result [OF make_ident_is_ident, of "[ref, name]" "used_names r1"] by blast
      then have id: "is_ident subref" by (rule uniquify_is_ident)
      let ?r' = "r1\<lparr>used_names := finsert subref (used_names r1),
                    output_list := output_list r1 @ [raw_statement subref subtree]\<rparr>"
      from Subtree True d u have "render_entry ref key val indent r = Inr (subref, ?r')"
        by (simp add: render_entry_def)
      moreover from o have "output_list ?r' = output_list r @ (stmts @ [raw_statement subref subtree])"
        by simp
      moreover have "refers_to (make_string key @ lit '': '' @ subref) subref"
        by (simp add: refers_to_def key)
      with h id have "hoisted_before_use (stmts @ [raw_statement subref subtree])
          (make_string key @ lit '': '' @ subref)"
        by (rule hoisted_close)
      ultimately show ?thesis by blast
    next
      case False
      with Subtree have "render_entry ref key val indent r = dfs_helper ref val (indent @ lit ''  '') r"
        by (simp add: render_entry_def)
      with recurse show ?thesis by simp
    qed
  next
    case Recurse
    then have "render_entry ref key val indent r = dfs_helper ref val (indent @ lit ''  '') r"
      by (simp add: render_entry_def)
    with recurse show ?thesis by simp
  qed
qed

lemma dfs_items_ok:
  assumes "\<forall>kv \<in> set kvs. serializes_ok ref (snd kv)"
  shows "\<exists>added r' stmts.
     dfs_items ref kvs indent first retval r = Inr (retval @ added, r') \<and>
     output_list r' = output_list r @ stmts \<and>
     hoisted_before_use stmts (concat added)"
  using assms
proof (induction kvs arbitrary: first retval r)
  case Nil
  have "dfs_items ref [] indent first retval r = Inr (retval @ [], r)" by simp
  then show ?case using hoisted_nil by fastforce
next
  case (Cons kv kvs)
  obtain key val where kv: "kv = (key, val)" by (cases kv)
  with Cons.prems have "serializes_ok ref val" by simp
  then obtain piece r1 stmts1 where
    e: "render_entry ref key val indent r = Inr (piece, r1)"
    and o1: "output_list r1 = output_list r @ stmts1"
    and h1: "hoisted_before_use stmts1 (make_string key @ lit '': '' @ piece)"
    using render_entry_ok by blast
  let ?sep = "if first then [] else [lit '','']"
  let ?head = "?sep @ [[10] @ indent @ lit ''  '' @ make_string key @ lit '': ''] @ [piece]"
  have retval: "(if first then retval else retval @ [lit '','']) 
              @ [[10] @ indent @ lit ''  '' @ make_string key @ lit '': ''] @ [piece]
              = retval @ ?head"
    by simp
  from Cons.prems have "\<forall>kv \<in> set kvs. serializes_ok ref (snd kv)" by simp
  from Cons.IH [OF this, of False "retval @ ?head" r1]
  obtain added r' stmts2 where
    i: "dfs_items ref kvs indent False (retval @ ?head) r1 = Inr ((retval @ ?head) @ added, r')"
    and o2: "output_list r' = output_list r1 @ stmts2"
    and h2: "hoisted_before_use stmts2 (concat added)"
    by blast
  have "dfs_items ref (kv # kvs) indent first retval r = Inr (retval @ (?head @ added), r')"
    unfolding kv dfs_items_Cons e using i retval by simp
  moreover from o1 o2 have "output_list r' = output_list r @ (stmts1 @ stmts2)" by simp
  moreover have "hoisted_before_use (stmts1 @ stmts2) (concat (?head @ added))"
  proof (rule hoisted_append [OF h1 h2])
    have "concat (?head @ added) = (concat ?sep @ [10] @ indent @ lit ''  '')
        @ (make_string key @ lit '': '' @ piece) @ concat added"
      by simp
    then show "sublist (make_string key @ lit '': '' @ piece) (concat (?head @ added))"
      by (metis sublist_appendI)
    show "sublist (concat added) (concat (?head @ added))"
      by (metis concat_append sublist_append_leftI)
  qed
  ultimately show ?case by blast
qed

lemma dfs_elems_ok:
  assumes "\<forall>val \<in> set xs. serializes_ok ref val"
  shows "\<exists>added r' stmts.
     dfs_elems ref xs indent first retval r = Inr (retval @ added, r') \<and>
     output_list r' = output_list r @ stmts \<and>
     hoisted_before_use stmts (concat added)"
  using assms
proof (induction xs arbitrary: first retval r)
  case Nil
  have "dfs_elems ref [] indent first retval r = Inr (retval @ [], r)" by simp
  then show ?case using hoisted_nil by fastforce
next
  case (Cons val xs)
  from Cons.prems have "serializes_ok ref val" by simp
  then obtain rendered r1 stmts1 where
    e: "dfs_helper ref val (indent @ lit ''  '') r = Inr (rendered, r1)"
    and o1: "output_list r1 = output_list r @ stmts1"
    and h1: "hoisted_before_use stmts1 rendered"
    unfolding serializes_ok_def by blast
  let ?sep = "if first then [] else [lit '','']"
  let ?head = "?sep @ [[10] @ indent @ lit ''  ''] @ [rendered]"
  have retval: "(if first then retval else retval @ [lit '','']) @ [[10] @ indent @ lit ''  ''] @ [rendered]
              = retval @ ?head"
    by simp
  from Cons.prems have "\<forall>val \<in> set xs. serializes_ok ref val" by simp
  from Cons.IH [OF this, of False "retval @ ?head" r1]
  obtain added r' stmts2 where
    i: "dfs_elems ref xs indent False (retval @ ?head) r1 = Inr ((retval @ ?head) @ added, r')"
    and o2: "output_list r' = output_list r1 @ stmts2"
    and h2: "hoisted_before_use stmts2 (concat added)"
    by blast
  have "dfs_elems ref (val # xs) indent first retval r = Inr (retval @ (?head @ added), r')"
    using e i retval by (simp add: Let_def)
  moreover from o1 o2 have "output_list r' = output_list r @ (stmts1 @ stmts2)" by simp
  moreover have "hoisted_before_use (stmts1 @ stmts2) (concat (?head @ added))"
  proof (rule hoisted_append [OF h1 h2])
    have "concat (?head @ added) = (concat ?sep @ [10] @ indent @ lit ''  '') @ rendered @ concat added"
      by simp
    then show "sublist rendered (concat (?head @ added))"
      by (metis sublist_appendI)
    show "sublist (concat added) (concat (?head @ added))"
      by (metis concat_append sublist_append_leftI)
  qed
  ultimately show ?case by blast
qed

lemma dfs_helper_ok: "serializes_ok ref node"
proof (induction node)
  case (JArr xs)
  then have all: "\<forall>val \<in> set xs. serializes_ok ref val" by simp
  show ?case
    unfolding serializes_ok_def
  proof (intro allI)
    fix indent r
    obtain added r' stmts where
      i: "dfs_elems ref xs indent True [lit ''[''] r = Inr ([lit ''[''] @ added, r')"
      and o: "output_list r' = output_list r @ stmts"
      and h: "hoisted_before_use stmts (concat added)"
      using dfs_elems_ok [OF all] by blast
    let ?text = "concat (([lit ''[''] @ added) @ [[10] @ indent @ lit '']''])"
    from i have "dfs_helper ref (JArr xs) indent r = Inr (?text, r')" by simp
    moreover have "sublist (concat added) ?text" by simp
    with h have "hoisted_before_use stmts ?text" by (rule hoisted_mono)
    ultimately show "\<exists>text r' stmts. dfs_helper ref (JArr xs) indent r = Inr (text, r') \<and>
        output_list r' = output_list r @ stmts \<and> hoisted_before_use stmts text"
      using o by blast
  qed
next
  case (JObj kvs)
  then have all: "\<forall>kv \<in> set kvs. serializes_ok ref (snd kv)"
    by (auto simp: snds.simps)
  show ?case
    unfolding serializes_ok_def
  proof (intro allI)
    fix indent r
    obtain added r' stmts where
      i: "dfs_items ref kvs indent True [lit ''{''] r = Inr ([lit ''{''] @ added, r')"
      and o: "output_list r' = output_list r @ stmts"
      and h: "hoisted_before_use stmts (concat added)"
      using dfs_items_ok [OF all] by blast
    let ?text = "concat (([lit ''{''] @ added) @ [[10] @ indent @ lit ''}''])"
    from i have "dfs_helper ref (JObj kvs) indent r = Inr (?text, r')" by simp
    moreover have "sublist (concat added) ?text" by simp
    with h have "hoisted_before_use stmts ?text" by (rule hoisted_mono)
    ultimately show "\<exists>text r' stmts. dfs_helper ref (JObj kvs) indent r = Inr (text, r') \<and>
        output_list r' = output_list r @ stmts \<and> hoisted_before_use stmts text"
      using o by blast
  qed
qed (auto simp: serializes_ok_def intro: hoisted_nil)




lemma subtree_name_alt:
  "subtree_name (JObj kvs) = (if kvs = [] then lit ''unknown'' else fst (hd kvs))"
  by (cases kvs) auto

text \<open>
  C4, as the claim states it, fails: for a mapping with two keys under \<open>input\<close> the
  only name allocated is derived from the first key, \<open>rel_0_a\<close>, not from
  \<open>unknown\<close>.
\<close>

theorem input_two_keys_first_key:
  "map_sum id used_names
     (emit_raw_json (lit ''rel_0'')
        (JObj [(lit ''input'', JObj [(lit ''a'', JNull), (lit ''b'', JNull)])]) new_run)
   = Inr {|lit ''rel_0_a''|}
   \<and> map_sum id output_list
     (emit_raw_json (lit ''rel_0'')
        (JObj [(lit ''input'', JObj [(lit ''a'', JNull), (lit ''b'', JNull)])]) new_run)
   = Inr [raw_statement (lit ''rel_0_a'')
            (lit ''{'' @ [10] @ lit ''  '' @ make_string (lit ''a'') @ lit '': null,'' @ [10]
             @ lit ''  '' @ make_string (lit ''b'') @ lit '': null'' @ [10] @ lit ''}''),
          raw_statement (lit ''rel_0'')
            (lit ''{'' @ [10] @ lit ''  '' @ make_string (lit ''input'') @ lit '': rel_0_a'' @ [10]
             @ lit ''}'')]"
  by code_simp

text \<open>
  C4, amended. For every mapping \<open>v\<close> under a key \<open>input\<close>, the loop of
  \<open>dfs_helper\<close> renders \<open>v\<close>, allocates the symbol derived from the current
  declaration name together with the first key of \<open>v\<close> when \<open>v\<close> is not empty and
  with \<open>unknown\<close> when it is empty, emits the \<open>raw\<close> binding of that symbol and
  goes on with the symbol in place of \<open>v\<close>.
\<close>

theorem input_symbol_from_first_key:
  "\<exists>subtree r1 subref used.
     dfs_helper ref (JObj kvs) [] r = Inr (subtree, r1) \<and>
     uniquify (make_ident [ref, if kvs = [] then lit ''unknown'' else fst (hd kvs)]) (used_names r1)
       = Inr (subref, used) \<and>
     dfs_items ref ((lit ''input'', JObj kvs) # rest) indent first retval r
       = dfs_items ref rest indent False
           ((if first then retval else retval @ [lit '',''])
            @ [[10] @ indent @ lit ''  '' @ make_string (lit ''input'') @ lit '': '', subref])
           (r1\<lparr>used_names := used,
                output_list := output_list r1 @ [raw_statement subref subtree]\<rparr>)"
proof -
  let ?name = "if kvs = [] then lit ''unknown'' else fst (hd kvs)"
  obtain subtree r1 where d: "dfs_helper ref (JObj kvs) [] r = Inr (subtree, r1)"
    using dfs_helper_ok [of ref "JObj kvs"] unfolding serializes_ok_def by blast
  obtain subref where u: "uniquify (make_ident [ref, ?name]) (used_names r1)
      = Inr (subref, finsert subref (used_names r1))"
    using uniquify_result [OF make_ident_is_ident, of "[ref, ?name]" "used_names r1"] by blast
  have b: "behavior_of r (lit ''input'') (JObj kvs) = Subtree ?name"
    by (simp add: behavior_of_def lit_def subtree_name_alt)
  have "render_entry ref (lit ''input'') (JObj kvs) indent r
      = Inr (subref, r1\<lparr>used_names := finsert subref (used_names r1),
                output_list := output_list r1 @ [raw_statement subref subtree]\<rparr>)"
    unfolding render_entry_def b using d u by (simp add: isinstance_def)
  then have "dfs_items ref ((lit ''input'', JObj kvs) # rest) indent first retval r
       = dfs_items ref rest indent False
           ((if first then retval else retval @ [lit '',''])
            @ [[10] @ indent @ lit ''  '' @ make_string (lit ''input'') @ lit '': '', subref])
           (r1\<lparr>used_names := finsert subref (used_names r1),
                output_list := output_list r1 @ [raw_statement subref subtree]\<rparr>)"
    by (subst dfs_items_Cons) simp
  with d u show ?thesis by blast
qed

theorem input_symbol_from_first_key_witness:
  "\<exists>subtree r1 subref used.
     dfs_helper (lit ''rel_0'') (JObj [(lit ''read'', JObj [])]) [] new_run = Inr (subtree, r1) \<and>
     uniquify (make_ident [lit ''rel_0'', lit ''read'']) (used_names r1) = Inr (subref, used) \<and>
     dfs_items (lit ''rel_0'') [(lit ''input'', JObj [(lit ''read'', JObj [])])] [] True [lit ''{''] new_run
       = dfs_items (lit ''rel_0'') [] [] False
           ([lit ''{''] @ [[10] @ [] @ lit ''  '' @ make_string (lit ''input'') @ lit '': '', subref])
           (r1\<lparr>used_names := used,
                output_list := output_list r1 @ [raw_statement subref subtree]\<rparr>)"
  using input_symbol_from_first_key [of "lit ''rel_0''" "[(lit ''read'', JObj [])]" new_run "[]" "[]"
      True "[lit ''{'']"]
  by simp

section \<open>Properties of the disassembler\<close>

lemma with_MessageUnpacker_list_fails:
  assumes "xs \<noteq> []"
  shows "\<exists>e. with_MessageUnpacker ctxt (JArr xs) (and_then (\<lambda>u. pop u key typ dflt) f) = Inl e"
  using assms
  by (auto simp: with_MessageUnpacker_def and_then_def pop_def MessageUnpacker_init_def
      MessageUnpacker_exit_def split: sum.splits)

lemma uri_loop_fails:
  "\<exists>e. uri_loop (JArr (x # xs)) (y # ys) r = Inl e"
proof -
  obtain e where "with_MessageUnpacker (lit ''extensionUriAnchor'') (JArr (x # xs))
             (and_then (\<lambda>u. pop u (lit ''extensionUriAnchor'') TInt (Some (JInt 0))) (\<lambda>anchor.
              and_then (\<lambda>u. pop u (lit ''uri'') TStr None) (\<lambda>uri.
              return (anchor, uri)))) = Inl e"
    using with_MessageUnpacker_list_fails [of "x # xs"] by blast
  then have "uri_body (JArr (x # xs)) y r = Inl e" by (simp add: uri_body_def)
  then show ?thesis by simp
qed

lemma pop_present:
  "map_of kvs key = Some v \<Longrightarrow>
   pop \<lparr>err_ctxt = c, obj = JObj kvs\<rparr> key typ dflt = (Inr w, u) \<Longrightarrow> w = v"
  by (auto simp: pop_def Let_def split: if_splits)

lemma unpack_plan_extension_uris:
  assumes "map_of kvs (lit ''extensionUris'') = Some v"
    and "unpack_plan (JObj kvs) = Inr (extension_uris, rest)"
  shows "extension_uris = v"
proof -
  let ?u = "MessageUnpacker_init (lit ''plan'') (JObj kvs)"
  obtain res u where p: "pop ?u (lit ''extensionUris'') TList (Some (JArr [])) = (res, u)"
    by (cases "pop ?u (lit ''extensionUris'') TList (Some (JArr []))") 
  show ?thesis
  proof (cases res)
    case (Inl e)
    with p assms(2) show ?thesis
      by (auto simp: unpack_plan_def with_MessageUnpacker_def and_then_def split: option.splits)
  next
    case (Inr w)
    with p assms(1) have "w = v"
      using pop_present [of kvs "lit ''extensionUris''" v "lit ''plan''" TList "Some (JArr [])" w u]
      by (simp add: MessageUnpacker_init_def)
    with p Inr assms(2) show ?thesis
      by (auto simp: unpack_plan_def with_MessageUnpacker_def and_then_def return_def
          split: option.splits sum.splits prod.splits)
  qed
qed

text \<open>
  C1. The loop over \<open>extensionUris\<close> never gets to unpack an entry: for every plan
  whose \<open>extensionUris\<close> list is non-empty \<open>disas\<close> ends in an exception, so no
  \<open>using\<close> statement is emitted and no anchor is recorded.
\<close>

theorem disas_extension_uris_fails:
  assumes "map_of kvs (lit ''extensionUris'') = Some (JArr (x # xs))"
  shows "\<exists>e. disas (JObj kvs) = Inl e"
proof (cases "unpack_plan (JObj kvs)")
  case (Inl e)
  then show ?thesis by (simp add: disas_def)
next
  case (Inr t)
  obtain extension_uris extensions relations advanced_extensions expected_type_urls
    where t: "t = (extension_uris, extensions, relations, advanced_extensions, expected_type_urls)"
    by (cases t) auto
  with Inr assms have eu: "extension_uris = JArr (x # xs)"
    using unpack_plan_extension_uris by blast
  obtain e where "uri_loop (JArr (x # xs)) (x # xs)
      (append_output ([10] @ lit ''// Type/function extensions'' @ [10]) new_run) = Inl e"
    using uri_loop_fails by blast
  then have "emit_extensions extension_uris extensions new_run = Inl e"
    by (simp add: emit_extensions_def eu)
  with Inr t show ?thesis by (auto simp: disas_def split: sum.splits)
qed

text \<open>The exception for one well-formed entry.\<close>

lemma disas_extension_uris_example:
  "disas (JObj [(lit ''extensionUris'',
       JArr [JObj [(lit ''extensionUriAnchor'', JInt 1),
                   (lit ''uri'', JStr (lit ''https://example.com/functions_arithmetic.yaml''))]])])
   = Inl PyTypeError"
  by code_simp

theorem disas_extension_uris_fails_witness:
  "\<exists>e. disas (JObj [(lit ''extensionUris'',
       JArr [JObj [(lit ''extensionUriAnchor'', JInt 1),
                   (lit ''uri'', JStr (lit ''https://example.com/functions_arithmetic.yaml''))]])])
   = Inl e"
  by (rule disas_extension_uris_fails [where x = "JObj [(lit ''extensionUriAnchor'', JInt 1),
                   (lit ''uri'', JStr (lit ''https://example.com/functions_arithmetic.yaml''))]" and xs = "[]"])
     (simp add: lit_def)

text \<open>
  C2. A relation whose oneof tag is \<open>root\<close> is never emitted: whatever its payload,
  the body of the loop over the relations ends in an exception.
\<close>

theorem relation_root_fails:
  "\<exists>e. relation_body index (JObj [(lit ''root'', payload)]) r = Inl e"
proof -
  let ?r = "append_output ([10] @ lit ''// Relation '' @ str_int index @ [10]) r"
  let ?u = "\<lparr>oneof_err_ctxt = lit ''relation root'', oneof_key = lit ''root'',
             oneof_val = payload, matched = False\<rparr>"
  have "\<exists>e. fst (relation_variant index ?r ?u) = Inl e"
    by (cases "unpack_root payload") (auto simp: relation_variant_def handle_def)
  then obtain e where e: "fst (relation_variant index ?r ?u) = Inl e" by blast
  have m: "matched (snd (relation_variant index ?r ?u))"
    by (cases "unpack_root payload") (auto simp: relation_variant_def handle_def)
  show ?thesis
    using e m
    by (cases "relation_variant index ?r ?u")
       (auto simp: relation_body_def with_OneOfMessageUnpacker_def OneOfMessageUnpacker_exit_def)
qed

text \<open>
  With the payload the plan format has, \<open>input\<close> is a mapping and fails the check for
  an \<open>int\<close>; \<open>names\<close> is then still in the mapping and \<open>__exit__\<close> reports it.
  With an \<open>int\<close> for \<open>input\<close> the block is left and \<open>emit_rels\<close> is called.
\<close>

lemma disas_root_example:
  "disas (JObj [(lit ''relations'',
       JArr [JObj [(lit ''root'',
         JObj [(lit ''input'', JObj [(lit ''read'', JObj [(lit ''namedTable'',
                  JObj [(lit ''names'', JArr [JStr (lit ''t'')])])])]),
               (lit ''names'', JArr [JStr (lit ''a'')])])]])])
   = Inl (UnexpectedFields (lit ''relation root'') (lit ''names''))"
  by code_simp

lemma disas_root_int_example:
  "disas (JObj [(lit ''relations'',
       JArr [JObj [(lit ''root'',
         JObj [(lit ''input'', JInt 0), (lit ''names'', JArr [JStr (lit ''a'')])])]])])
   = Inl (PyNameError (lit ''emit_rels''))"
  by code_simp

text \<open>
  A run that succeeds: one function extension for the operator \<open>+\<close> and one relation
  of the variant \<open>rel\<close>.
\<close>

lemma disas_example:
  "disas (JObj [(lit ''extensionUris'', JArr []),
     (lit ''extensions'',
       JArr [JObj [(lit ''extensionFunction'',
         JObj [(lit ''extensionUriReference'', JInt 0),
               (lit ''functionAnchor'', JInt 0),
               (lit ''name'', JStr (lit ''+''))])]]),
     (lit ''relations'',
       JArr [JObj [(lit ''rel'', JObj [(lit ''read'',
         JObj [(lit ''namedTable'', JObj [(lit ''names'', JArr [JStr (lit ''t'')])])])])]])])
   = Inr ([10] @ lit ''// Type/function extensions'' @ [10]
          @ lit ''function fn_add = '' @ make_string (lit ''+'') @ lit '' = 0;'' @ [10]
          @ [10] @ lit ''// Relation 0'' @ [10]
          @ lit ''raw rel_0 = {'' @ [10]
          @ lit ''  '' @ make_string (lit ''read'') @ lit '': {'' @ [10]
          @ lit ''    '' @ make_string (lit ''namedTable'') @ lit '': {'' @ [10]
          @ lit ''      '' @ make_string (lit ''names'') @ lit '': ['' @ [10]
          @ lit ''        '' @ make_string (lit ''t'') @ [10]
          @ lit ''      ]'' @ [10]
          @ lit ''    }'' @ [10]
          @ lit ''  }'' @ [10]
          @ lit ''};'' @ [10, 10]
          @ lit ''execute rel_0;'' @ [10])"
  by code_simp

text \<open>
  A boolean where an anchor and a function reference are expected goes through every
  check: the anchor is printed as \<open>True\<close> and stored under the key 1, where the
  reference \<open>true\<close> finds it.
\<close>

lemma disas_boolean_anchor_example:
  "disas (JObj [(lit ''extensions'',
       JArr [JObj [(lit ''extensionFunction'',
         JObj [(lit ''extensionUriReference'', JBool False),
               (lit ''functionAnchor'', JBool True),
               (lit ''name'', JStr (lit ''and''))])]]),
     (lit ''relations'',
       JArr [JObj [(lit ''rel'', JObj [(lit ''functionReference'', JBool True)])]])])
   = Inr ([10] @ lit ''// Type/function extensions'' @ [10]
          @ lit ''function fn_and = and = True;'' @ [10]
          @ [10] @ lit ''// Relation 0'' @ [10]
          @ lit ''raw rel_0 = {'' @ [10]
          @ lit ''  '' @ make_string (lit ''functionReference'') @ lit '': fn_and'' @ [10]
          @ lit ''};'' @ [10, 10]
          @ lit ''execute rel_0;'' @ [10])"
  by code_simp

end
